theory Spec2Isabelle
  imports Main "HOL-Library.Word" "HOL-Library.AList"
begin

section \<open>Games-Detector: the appinfo decoder and the filename sanitiser\<close>

text \<open>
  A shallow embedding of \<^verbatim>\<open>read_appinfo\<close> and \<^verbatim>\<open>get_valid_file_name\<close> of
  \<^verbatim>\<open>src/steam_detector.py\<close> (the sanitiser is repeated verbatim in
  \<^verbatim>\<open>epic_detector.py\<close> and \<^verbatim>\<open>gog_detector.py\<close>).
  Python \<^verbatim>\<open>bytes\<close> are lists of 8-bit words, Python \<^verbatim>\<open>str\<close> values are lists of
  Unicode code points, Python \<^verbatim>\<open>int\<close>s are unbounded, an exception is the left
  injection of a sum, and a computation that does not return is \<open>None\<close>. The file is
  its bytes and a cursor, on a file system that has a largest offset; opening it, the
  registry and the shortcut files are outside the model.
\<close>

subsection \<open>Bytes, strings and exceptions\<close>

type_synonym byte = "8 word"
type_synonym str = "nat list"

datatype error = SyntaxError | StructError | ValueError | UnicodeDecodeError | OSError

definition bytes_lit :: "string \<Rightarrow> byte list" where
  "bytes_lit s = map of_char s"

definition str_lit :: "string \<Rightarrow> str" where
  "str_lit s = map of_char s"

text \<open>Python slicing \<^verbatim>\<open>b[i:j]\<close> for non-negative indices: it never raises, and is
  shorter than \<open>j - i\<close> (possibly empty) where the sequence ends early.\<close>

definition py_slice :: "'a list \<Rightarrow> nat \<Rightarrow> nat \<Rightarrow> 'a list" where
  "py_slice xs i j = take (j - i) (drop i xs)"

text \<open>\<^verbatim>\<open>sub in b\<close> and \<^verbatim>\<open>b.index(sub)\<close>: the lowest index at which \<open>sub\<close> starts.\<close>

fun bytes_index :: "'a list \<Rightarrow> 'a list \<Rightarrow> nat option" where
  "bytes_index sub [] = (if sub = [] then Some 0 else None)"
| "bytes_index sub (x # xs) =
     (if take (length sub) (x # xs) = sub then Some 0
      else map_option Suc (bytes_index sub xs))"

definition bytes_in :: "'a list \<Rightarrow> 'a list \<Rightarrow> bool" where
  "bytes_in sub xs = (bytes_index sub xs \<noteq> None)"

subsection \<open>\<^verbatim>\<open>bytes.decode\<close>: strict UTF-8\<close>

definition is_cont :: "byte \<Rightarrow> bool" where
  "is_cont b = (0x80 \<le> b \<and> b \<le> 0xBF)"

definition cont_bits :: "byte \<Rightarrow> nat" where
  "cont_bits b = unat b mod 64"

fun utf8_decode :: "byte list \<Rightarrow> str option" where
  "utf8_decode [] = Some []"
| "utf8_decode (b0 # bs) =
     (if b0 < 0x80 then map_option ((#) (unat b0)) (utf8_decode bs)
      else if 0xC2 \<le> b0 \<and> b0 \<le> 0xDF then
        (case bs of
           b1 # r \<Rightarrow>
             if is_cont b1
             then map_option ((#) (unat b0 mod 32 * 64 + cont_bits b1)) (utf8_decode r)
             else None
         | _ \<Rightarrow> None)
      else if 0xE0 \<le> b0 \<and> b0 \<le> 0xEF then
        (case bs of
           b1 # b2 # r \<Rightarrow>
             if is_cont b1 \<and> is_cont b2
                \<and> (b0 = 0xE0 \<longrightarrow> 0xA0 \<le> b1) \<and> (b0 = 0xED \<longrightarrow> b1 \<le> 0x9F)
             then map_option
                    ((#) (unat b0 mod 16 * 4096 + cont_bits b1 * 64 + cont_bits b2))
                    (utf8_decode r)
             else None
         | _ \<Rightarrow> None)
      else if 0xF0 \<le> b0 \<and> b0 \<le> 0xF4 then
        (case bs of
           b1 # b2 # b3 # r \<Rightarrow>
             if is_cont b1 \<and> is_cont b2 \<and> is_cont b3
                \<and> (b0 = 0xF0 \<longrightarrow> 0x90 \<le> b1) \<and> (b0 = 0xF4 \<longrightarrow> b1 \<le> 0x8F)
             then map_option
                    ((#) (unat b0 mod 8 * 262144 + cont_bits b1 * 4096
                          + cont_bits b2 * 64 + cont_bits b3))
                    (utf8_decode r)
             else None
         | _ \<Rightarrow> None)
      else None)"

definition bytes_decode :: "byte list \<Rightarrow> error + str" where
  "bytes_decode bs =
     (case utf8_decode bs of None \<Rightarrow> Inl UnicodeDecodeError | Some s \<Rightarrow> Inr s)"

subsection \<open>\<^verbatim>\<open>struct.Struct('<I')\<close> and \<^verbatim>\<open>struct.Struct('<Q')\<close>\<close>

fun le_nat :: "byte list \<Rightarrow> nat" where
  "le_nat [] = 0"
| "le_nat (b # bs) = unat b + 256 * le_nat bs"

text \<open>\<^verbatim>\<open>unpack\<close> raises \<^verbatim>\<open>struct.error\<close> unless the buffer has exactly the size of
  the format.\<close>

definition unpack_int32 :: "byte list \<Rightarrow> error + nat" where
  "unpack_int32 bs = (if length bs = 4 then Inr (le_nat bs) else Inl StructError)"

definition unpack_int64 :: "byte list \<Rightarrow> error + nat" where
  "unpack_int64 bs = (if length bs = 8 then Inr (le_nat bs) else Inl StructError)"

subsection \<open>The binary file object\<close>

record pyfile =
  content :: "byte list"
  pos :: nat

definition f_tell :: "pyfile \<Rightarrow> nat" where
  "f_tell f = pos f"

text \<open>\<^verbatim>\<open>f.read(n)\<close> with \<open>n \<ge> 0\<close>: at most \<open>n\<close> bytes, fewer at the end of the
  file, none at or after it; it never raises.\<close>

definition f_read :: "nat \<Rightarrow> pyfile \<Rightarrow> byte list \<times> pyfile" where
  "f_read n f =
     (let bs = take n (drop (pos f) (content f))
      in (bs, f\<lparr>pos := pos f + length bs\<rparr>))"

text \<open>\<^verbatim>\<open>f.read(n)\<close> with a computed \<open>n\<close>: \<open>-1\<close> reads to the end of the file, a
  smaller \<open>n\<close> raises \<^verbatim>\<open>ValueError\<close>.\<close>

definition f_read_int :: "int \<Rightarrow> pyfile \<Rightarrow> error + (byte list \<times> pyfile)" where
  "f_read_int n f =
     (if n < - 1 then Inl ValueError
      else if n = - 1 then Inr (f_read (length (content f) - pos f) f)
      else Inr (f_read (nat n) f))"

text \<open>\<^verbatim>\<open>f.seek(target)\<close>. A target that does not fit the signed 64-bit file offset
  raises \<^verbatim>\<open>ValueError\<close> in the conversion; a target that the file system rejects raises
  \<^verbatim>\<open>OSError\<close> (errno 22); any other target, also one after the end of the file, is
  accepted and only moves the cursor. Which offsets the file system accepts is not in
  the source: \<open>max_offset\<close>, the largest one, is a parameter of the model. An offset
  inside the file is accepted whatever the parameter is, since the file has that size.\<close>

definition f_seek :: "nat \<Rightarrow> nat \<Rightarrow> pyfile \<Rightarrow> error + pyfile" where
  "f_seek max_offset target f =
     (if target > 2 ^ 63 - 1 then Inl ValueError
      else if length (content f) < target \<and> max_offset < target then Inl OSError
      else Inr (f\<lparr>pos := target\<rparr>))"

text \<open>\<^verbatim>\<open>int32.unpack(f.read(4))[0]\<close> and \<^verbatim>\<open>int64.unpack(f.read(8))[0]\<close>.\<close>

definition read_int32 :: "pyfile \<Rightarrow> error + (nat \<times> pyfile)" where
  "read_int32 f =
     (let (bs, f') = f_read 4 f
      in case unpack_int32 bs of Inl e \<Rightarrow> Inl e | Inr v \<Rightarrow> Inr (v, f'))"

definition read_int64 :: "pyfile \<Rightarrow> error + (nat \<times> pyfile)" where
  "read_int64 f =
     (let (bs, f') = f_read 8 f
      in case unpack_int64 bs of Inl e \<Rightarrow> Inl e | Inr v \<Rightarrow> Inr (v, f'))"

subsection \<open>\<^verbatim>\<open>read_appinfo\<close>: the header (source lines 48 to 56)\<close>

definition magic_bytes :: "byte list" where
  "magic_bytes = [0x29, 0x44, 0x56, 0x07]"

record header =
  universe :: nat
  string_table_offset :: nat
  string_count :: nat

definition read_header :: "nat \<Rightarrow> pyfile \<Rightarrow> error + (header \<times> pyfile)" where
  "read_header max_offset f0 =
     (let (magic, f1) = f_read 4 f0 in
      if magic \<noteq> magic_bytes then Inl SyntaxError
      else
       (case read_int32 f1 of Inl e \<Rightarrow> Inl e | Inr (u, f2) \<Rightarrow>
       (case read_int64 f2 of Inl e \<Rightarrow> Inl e | Inr (sto, f3) \<Rightarrow>
       (let previous_offset = f_tell f3 in
       (case f_seek max_offset (previous_offset + sto) f3 of Inl e \<Rightarrow> Inl e | Inr f4 \<Rightarrow>
       (case read_int32 f4 of Inl e \<Rightarrow> Inl e | Inr (cnt, f5) \<Rightarrow>
       (case f_seek max_offset previous_offset f5 of Inl e \<Rightarrow> Inl e | Inr f6 \<Rightarrow>
          Inr (\<lparr>universe = u, string_table_offset = sto, string_count = cnt\<rparr>,
               f6))))))))"

subsection \<open>\<^verbatim>\<open>read_appinfo\<close>: one record (source lines 64 to 79)\<close>

record app =
  appid :: nat
  info_state :: nat
  last_updated :: nat
  picsToken :: nat
  sha1Text :: "byte list"
  change_number :: nat
  sha1Binary :: "byte list"
  name :: "str option"
  type :: "str option"
  icon_hash :: "str option"
  binary_content :: "byte list"

text \<open>The dictionary entries are evaluated in the order they are written, so the
  payload is read last, with the length \<^verbatim>\<open>end - f.tell()\<close>.\<close>

definition read_app :: "nat \<Rightarrow> pyfile \<Rightarrow> error + (app \<times> pyfile)" where
  "read_app aid f0 =
     (case read_int32 f0 of Inl e \<Rightarrow> Inl e | Inr (sz, f1) \<Rightarrow>
     (let end_pos = f_tell f1 + sz in
     (case read_int32 f1 of Inl e \<Rightarrow> Inl e | Inr (st, f2) \<Rightarrow>
     (case read_int32 f2 of Inl e \<Rightarrow> Inl e | Inr (lu, f3) \<Rightarrow>
     (case read_int64 f3 of Inl e \<Rightarrow> Inl e | Inr (tok, f4) \<Rightarrow>
     (let (s1, f5) = f_read 20 f4 in
     (case read_int32 f5 of Inl e \<Rightarrow> Inl e | Inr (cn, f6) \<Rightarrow>
     (let (s2, f7) = f_read 20 f6 in
     (case f_read_int (int end_pos - int (f_tell f7)) f7 of Inl e \<Rightarrow> Inl e
      | Inr (bc, f8) \<Rightarrow>
          Inr (\<lparr>appid = aid, info_state = st, last_updated = lu, picsToken = tok,
                sha1Text = s1, change_number = cn, sha1Binary = s2, name = None,
                type = None, icon_hash = None, binary_content = bc\<rparr>, f8))))))))))"

subsection \<open>\<^verbatim>\<open>read_appinfo\<close>: the three fields (source lines 82 to 103)\<close>

definition name_marker :: "byte list" where
  "name_marker = [0x01, 0x04, 0x00, 0x00, 0x00]"

definition type_marker :: "byte list" where
  "type_marker = [0x01, 0x05, 0x00, 0x00, 0x00]"

definition icon_marker :: "byte list" where
  "icon_marker = [0x01, 0x58, 0x01, 0x00, 0x00]"

definition type_tags :: "byte list list" where
  "type_tags = map bytes_lit
     [''Game'', ''DLC'', ''Demo'', ''Config'', ''Beta'', ''Tool'', ''ownersonly'',
      ''Application'']"

text \<open>The loop \<^verbatim>\<open>while bc[index:index + 1] != b"\x00": acc += bc[index:index + 1];
  index += 1\<close>. Past the end of \<open>bc\<close> the py_slice is empty, which differs from
  \<^verbatim>\<open>b"\x00"\<close>, so the loop has no exit there: \<open>None\<close> is the run that never returns.\<close>

partial_function (option) scan_value :: "byte list \<Rightarrow> nat \<Rightarrow> byte list \<Rightarrow> byte list option"
  where
  "scan_value bc index acc =
     (if py_slice bc index (index + 1) \<noteq> [0]
      then scan_value bc (index + 1) (acc @ py_slice bc index (index + 1))
      else Some acc)"

definition extract_name :: "app \<Rightarrow> (error + app) option" where
  "extract_name a =
     (if bytes_in name_marker (binary_content a) then
        let index = the (bytes_index name_marker (binary_content a)) + 5 in
        case scan_value (binary_content a) index [] of
          None \<Rightarrow> None
        | Some nm \<Rightarrow>
            (case bytes_decode nm of
               Inl e \<Rightarrow> Some (Inl e)
             | Inr s \<Rightarrow> Some (Inr (a\<lparr>name := Some s\<rparr>)))
      else Some (Inr a))"

definition extract_obj_type :: "app \<Rightarrow> (error + app) option" where
  "extract_obj_type a =
     (if bytes_in type_marker (binary_content a) then
        let index = the (bytes_index type_marker (binary_content a)) + 5 in
        case scan_value (binary_content a) index [] of
          None \<Rightarrow> None
        | Some obj_type \<Rightarrow>
            if obj_type \<in> set type_tags then
              (case bytes_decode obj_type of
                 Inl e \<Rightarrow> Some (Inl e)
               | Inr s \<Rightarrow> Some (Inr (a\<lparr>type := Some s\<rparr>)))
            else Some (Inr a)
      else Some (Inr a))"

definition extract_icon :: "app \<Rightarrow> error + app" where
  "extract_icon a =
     (if bytes_in icon_marker (binary_content a) then
        let index = the (bytes_index icon_marker (binary_content a)) + 5 in
        case bytes_decode (py_slice (binary_content a) index (index + 40)) of
          Inl e \<Rightarrow> Inl e
        | Inr s \<Rightarrow> Inr (a\<lparr>icon_hash := Some s\<rparr>)
      else Inr a)"

definition extract_fields :: "app \<Rightarrow> (error + app) option" where
  "extract_fields a =
     (case extract_name a of
        None \<Rightarrow> None
      | Some (Inl e) \<Rightarrow> Some (Inl e)
      | Some (Inr a1) \<Rightarrow>
          (case extract_obj_type a1 of
             None \<Rightarrow> None
           | Some (Inl e) \<Rightarrow> Some (Inl e)
           | Some (Inr a2) \<Rightarrow> Some (extract_icon a2)))"

subsection \<open>\<^verbatim>\<open>read_appinfo\<close>: the record loop and the whole function\<close>

text \<open>\<^verbatim>\<open>return_dict\<close> keeps its keys in insertion order; assigning to a key already
  present replaces the value in place, which is \<open>AList.update\<close>.\<close>

type_synonym store = "(nat \<times> app) list"

function read_games :: "pyfile \<Rightarrow> store \<Rightarrow> (error + store) option" where
  "read_games f return_dict =
     (case read_int32 f of
        Inl e \<Rightarrow> Some (Inl e)
      | Inr (aid, f1) \<Rightarrow>
          if aid = 0 then Some (Inr return_dict)
          else
            (case read_app aid f1 of
               Inl e \<Rightarrow> Some (Inl e)
             | Inr (a0, f2) \<Rightarrow>
                 (case extract_fields a0 of
                    None \<Rightarrow> None
                  | Some (Inl e) \<Rightarrow> Some (Inl e)
                  | Some (Inr a) \<Rightarrow> read_games f2 (AList.update aid a return_dict))))"
  by pat_completeness auto
termination
proof (relation "measure (\<lambda>(f, d). length (content f) - pos f)")
  show "wf (measure (\<lambda>(f, d). length (content f) - pos f))"
    by simp
next
  fix f :: pyfile and return_dict :: store and x2 aid f1 x2a a0 f2 x2b a
  assume "read_int32 f = Inr x2" and "(aid, f1) = x2" and "read_app aid f1 = Inr x2a"
    and "(a0, f2) = x2a"
  then have i: "read_int32 f = Inr (aid, f1)" and r: "read_app aid f1 = Inr (a0, f2)"
    by simp_all
  have int32: "content g' = content g \<and> pos g' = pos g + 4 \<and> pos g + 4 \<le> length (content g)"
    if "read_int32 g = Inr (v, g')" for g g' v
    using that
    by (auto simp: read_int32_def unpack_int32_def f_read_def Let_def split: if_splits)
  have int64: "content g' = content g \<and> pos g \<le> pos g'"
    if "read_int64 g = Inr (v, g')" for g g' v
    using that
    by (auto simp: read_int64_def unpack_int64_def f_read_def Let_def split: if_splits)
  have raw: "content (snd (f_read n g)) = content g \<and> pos g \<le> pos (snd (f_read n g))"
    for n g
    by (simp add: f_read_def Let_def)
  have any: "content g' = content g \<and> pos g \<le> pos g'"
    if "f_read_int n g = Inr (bs, g')" for n g bs g'
    using that by (auto simp: f_read_int_def f_read_def Let_def split: if_splits)
  from r obtain sz g1 st g2 lu g3 tok g4 cn g6 bc where
    r1: "read_int32 f1 = Inr (sz, g1)" and r2: "read_int32 g1 = Inr (st, g2)" and
    r3: "read_int32 g2 = Inr (lu, g3)" and r4: "read_int64 g3 = Inr (tok, g4)" and
    r6: "read_int32 (snd (f_read 20 g4)) = Inr (cn, g6)" and
    r8: "f_read_int (int (f_tell g1 + sz) - int (f_tell (snd (f_read 20 g6))))
           (snd (f_read 20 g6)) = Inr (bc, f2)"
    by (auto simp: read_app_def Let_def split: sum.splits prod.splits)
  from int32 [OF i] int32 [OF r1] int32 [OF r2] int32 [OF r3] int64 [OF r4] raw [of 20 g4]
    int32 [OF r6] raw [of 20 g6] any [OF r8]
  have "content f2 = content f" and "pos f + 4 \<le> pos f2" and "pos f + 4 \<le> length (content f)"
    by simp_all
  then show "((f2, AList.update aid a return_dict), f, return_dict)
          \<in> measure (\<lambda>(f, d). length (content f) - pos f)"
    by auto
qed

declare read_games.simps [simp del]

text \<open>The whole function, on the bytes of the file at \<^verbatim>\<open>path\<close> and the largest offset
  of its file system.\<close>

definition read_appinfo :: "nat \<Rightarrow> byte list \<Rightarrow> (error + store) option" where
  "read_appinfo max_offset buf =
     (case read_header max_offset \<lparr>content = buf, pos = 0\<rparr> of
        Inl e \<Rightarrow> Some (Inl e)
      | Inr (h, f) \<Rightarrow> read_games f [])"

subsection \<open>\<^verbatim>\<open>get_valid_file_name\<close>\<close>

definition forbidden_chars :: "str" where
  "forbidden_chars = [0x2F, 0x5C, 0x3A, 0x2A, 0x3F, 0x22, 0x3C, 0x3E, 0x7C]"

definition space :: nat where
  "space = 0x20"

text \<open>\<^verbatim>\<open>filename.replace(char, " ")\<close> for a one-character \<open>char\<close>.\<close>

definition replace_char :: "nat \<Rightarrow> nat \<Rightarrow> str \<Rightarrow> str" where
  "replace_char c r s = map (\<lambda>x. if x = c then r else x) s"

definition remove_forbidden :: "str \<Rightarrow> str" where
  "remove_forbidden filename =
     fold (\<lambda>char fn. if char \<in> set fn then replace_char char space fn else fn)
       forbidden_chars filename"

text \<open>\<^verbatim>\<open>while filename.startswith(" "): filename = filename.removeprefix(" ")\<close>\<close>

fun strip_prefix :: "str \<Rightarrow> str" where
  "strip_prefix [] = []"
| "strip_prefix (c # cs) = (if c = space then strip_prefix cs else c # cs)"

text \<open>\<^verbatim>\<open>while filename.endswith(" "): filename = filename.removesuffix(" ")\<close>\<close>

function strip_suffix :: "str \<Rightarrow> str" where
  "strip_suffix s = (if s \<noteq> [] \<and> last s = space then strip_suffix (butlast s) else s)"
  by pat_completeness auto
termination
  by (relation "measure length") auto

declare strip_suffix.simps [simp del]

definition get_valid_file_name :: "str \<Rightarrow> str" where
  "get_valid_file_name filename = strip_suffix (strip_prefix (remove_forbidden filename))"

text \<open>\<^verbatim>\<open>s.startswith(p)\<close> and \<^verbatim>\<open>s.endswith(p)\<close>, to state what the result looks like.\<close>

definition startswith :: "str \<Rightarrow> str \<Rightarrow> bool" where
  "startswith s p = (take (length p) s = p)"

definition endswith :: "str \<Rightarrow> str \<Rightarrow> bool" where
  "endswith s p = (length p \<le> length s \<and> drop (length s - length p) s = p)"

section \<open>The file layout, to state what a well-formed buffer is\<close>

text \<open>\<^verbatim>\<open>struct.pack\<close> for the two formats: the bytes that \<^verbatim>\<open>unpack\<close> reads back.\<close>

fun le_bytes :: "nat \<Rightarrow> nat \<Rightarrow> byte list" where
  "le_bytes 0 n = []"
| "le_bytes (Suc k) n = of_nat (n mod 256) # le_bytes k (n div 256)"

definition pack_int32 :: "nat \<Rightarrow> byte list" where
  "pack_int32 n = le_bytes 4 n"

definition pack_int64 :: "nat \<Rightarrow> byte list" where
  "pack_int64 n = le_bytes 8 n"

definition header_bytes :: "nat \<Rightarrow> nat \<Rightarrow> byte list" where
  "header_bytes u sto = magic_bytes @ pack_int32 u @ pack_int64 sto"

definition encode_app :: "app \<Rightarrow> byte list" where
  "encode_app a =
     pack_int32 (appid a) @ pack_int32 (60 + length (binary_content a))
     @ pack_int32 (info_state a) @ pack_int32 (last_updated a) @ pack_int64 (picsToken a)
     @ sha1Text a @ pack_int32 (change_number a) @ sha1Binary a @ binary_content a"

definition raw_record :: "app \<Rightarrow> bool" where
  "raw_record a =
     (0 < appid a \<and> appid a < 2 ^ 32 \<and> 60 + length (binary_content a) < 2 ^ 32
      \<and> info_state a < 2 ^ 32 \<and> last_updated a < 2 ^ 32 \<and> picsToken a < 2 ^ 64
      \<and> length (sha1Text a) = 20 \<and> change_number a < 2 ^ 32
      \<and> length (sha1Binary a) = 20
      \<and> name a = None \<and> type a = None \<and> icon_hash a = None)"

text \<open>The value bytes that follow the first occurrence of a marker in a payload, up to
  the next zero byte.\<close>

definition marker_value :: "byte list \<Rightarrow> byte list \<Rightarrow> byte list" where
  "marker_value m bc =
     takeWhile (\<lambda>b. b \<noteq> 0) (drop (the (bytes_index m bc) + 5) bc)"

definition zero_terminated :: "byte list \<Rightarrow> byte list \<Rightarrow> bool" where
  "zero_terminated m bc =
     (bytes_in m bc \<and> 0 \<in> set (drop (the (bytes_index m bc) + 5) bc))"

definition fields_ok :: "byte list \<Rightarrow> bool" where
  "fields_ok bc =
     ((bytes_in name_marker bc \<longrightarrow>
         zero_terminated name_marker bc
         \<and> utf8_decode (marker_value name_marker bc) \<noteq> None)
      \<and> (bytes_in type_marker bc \<longrightarrow> zero_terminated type_marker bc)
      \<and> (bytes_in icon_marker bc \<longrightarrow>
         utf8_decode (py_slice bc (the (bytes_index icon_marker bc) + 5)
                        (the (bytes_index icon_marker bc) + 5 + 40)) \<noteq> None))"

text \<open>What the record loop stores for a raw record on which the field extraction
  returns.\<close>

definition decoded :: "app \<Rightarrow> app" where
  "decoded r = (case extract_fields r of Some (Inr a) \<Rightarrow> a | _ \<Rightarrow> r)"

definition store_of :: "app list \<Rightarrow> store \<Rightarrow> store" where
  "store_of recs d = fold (\<lambda>r. AList.update (appid r) (decoded r)) recs d"

text \<open>A file system for the examples: the largest offset is 16 TiB less one block of
  4 KiB.\<close>

definition example_max_offset :: nat where
  "example_max_offset = 2 ^ 44 - 4096"

text \<open>The record of the end-to-end scenario: application 440, whose payload is the name
  marker, the name and a zero byte.\<close>

definition tf2_record :: app where
  "tf2_record =
     \<lparr>appid = 440, info_state = 2, last_updated = 0, picsToken = 0,
      sha1Text = replicate 20 0, change_number = 0, sha1Binary = replicate 20 0,
      name = None, type = None, icon_hash = None,
      binary_content = name_marker @ bytes_lit ''Team Fortress 2'' @ [0]\<rparr>"

text \<open>The same scenario as bytes, with the string table offset left open: magic,
  universe 1, the offset, the record (declared size \<open>81 = 60 + 21\<close>), the sentinel.\<close>

definition tf2_buf :: "byte list \<Rightarrow> byte list" where
  "tf2_buf sto_bytes =
     magic_bytes @ [1, 0, 0, 0] @ sto_bytes
     @ [0xB8, 1, 0, 0] @ [81, 0, 0, 0]
     @ [2, 0, 0, 0] @ [0, 0, 0, 0] @ [0, 0, 0, 0, 0, 0, 0, 0] @ replicate 20 0
     @ [0, 0, 0, 0]
     @ replicate 20 0
     @ name_marker @ bytes_lit ''Team Fortress 2'' @ [0]
     @ [0, 0, 0, 0]"

text \<open>A record as \<^verbatim>\<open>read_app\<close> returns it when the fixed fields are all zero.\<close>

definition blank_app :: "nat \<Rightarrow> byte list \<Rightarrow> app" where
  "blank_app aid bc =
     \<lparr>appid = aid, info_state = 0, last_updated = 0, picsToken = 0,
      sha1Text = replicate 20 0, change_number = 0, sha1Binary = replicate 20 0,
      name = None, type = None, icon_hash = None, binary_content = bc\<rparr>"

text \<open>A buffer with one record whose payload is the name marker followed by \<^verbatim>\<open>TF2\<close> and
  nothing else: magic, universe 1, string table offset 0, appid 440, declared size
  \<open>68 = 60 + 8\<close>, 60 zero bytes of fixed fields, the payload, the sentinel.\<close>

definition unterminated_buf :: "byte list" where
  "unterminated_buf =
     magic_bytes @ [1, 0, 0, 0] @ [0, 0, 0, 0, 0, 0, 0, 0]
     @ [0xB8, 1, 0, 0] @ [68, 0, 0, 0] @ replicate 60 0
     @ name_marker @ bytes_lit ''TF2''
     @ [0, 0, 0, 0]"

text \<open>The bytes from the start of a record to the end of the buffer, when a read of
  that record runs past the end: the appid is cut, or it is not the sentinel and either
  the declared size or one of the fixed fields is cut (appid, declared size and fixed
  fields take \<open>4 + 4 + 60 = 68\<close> bytes), or the declared size reaches past the end.\<close>

definition truncated :: "byte list \<Rightarrow> bool" where
  "truncated tail =
     (length tail < 4
      \<or> (le_nat (take 4 tail) \<noteq> 0
          \<and> (length tail < 68 \<or> length tail < 8 + le_nat (py_slice tail 4 8))))"

text \<open>A buffer with one record whose payload ends three bytes after the icon marker:
  magic, universe 1, string table offset 0, appid 440, declared size \<open>68 = 60 + 8\<close>, 60
  zero bytes of fixed fields, the payload (the marker and \<^verbatim>\<open>abc\<close>), the sentinel.\<close>

definition short_icon_buf :: "byte list" where
  "short_icon_buf =
     magic_bytes @ [1, 0, 0, 0] @ [0, 0, 0, 0, 0, 0, 0, 0]
     @ [0xB8, 1, 0, 0] @ [68, 0, 0, 0] @ replicate 60 0
     @ icon_marker @ bytes_lit ''abc''
     @ [0, 0, 0, 0]"

text \<open>A buffer cut inside its only record: the record declares 200 bytes, the buffer
  ends after the 60 bytes of fixed fields and seven bytes of payload, which are the
  name marker, the byte \<open>0xFF\<close> (not UTF-8) and a zero byte.\<close>

definition cut_bad_name_buf :: "byte list" where
  "cut_bad_name_buf =
     magic_bytes @ [1, 0, 0, 0] @ [0, 0, 0, 0, 0, 0, 0, 0]
     @ [0xB8, 1, 0, 0] @ [200, 0, 0, 0] @ replicate 60 0
     @ name_marker @ [0xFF, 0]"

section \<open>Reading from the file\<close>

lemma example_max_offset_value: "example_max_offset = 17592186040320"
  by (simp add: example_max_offset_def)

lemma f_read_content [simp]: "content (snd (f_read n f)) = content f"
  by (simp add: f_read_def Let_def)

lemma f_read_pos: "pos (snd (f_read n f)) = pos f + length (fst (f_read n f))"
  by (simp add: f_read_def Let_def)

lemma f_read_length: "length (fst (f_read n f)) = min n (length (content f) - pos f)"
  by (simp add: f_read_def Let_def min_def)

lemma read_int32_Inr:
  "read_int32 f = Inr (v, f') \<Longrightarrow>
     content f' = content f \<and> pos f' = pos f + 4 \<and> pos f + 4 \<le> length (content f)"
  by (auto simp: read_int32_def unpack_int32_def f_read_def Let_def split: if_splits)

lemma read_int64_Inr:
  "read_int64 f = Inr (v, f') \<Longrightarrow>
     content f' = content f \<and> pos f' = pos f + 8 \<and> pos f + 8 \<le> length (content f)"
  by (auto simp: read_int64_def unpack_int64_def f_read_def Let_def split: if_splits)

lemma f_read_int_Inr:
  "f_read_int n f = Inr (bs, f') \<Longrightarrow> content f' = content f \<and> pos f \<le> pos f'"
  by (auto simp: f_read_int_def f_read_def Let_def split: if_splits)

lemma read_app_Inr:
  assumes "read_app aid f = Inr (a, f')"
  shows "content f' = content f \<and> pos f \<le> pos f'"
proof -
  from assms obtain sz f1 st f2 lu f3 tok f4 cn f6 bc where
    r1: "read_int32 f = Inr (sz, f1)" and r2: "read_int32 f1 = Inr (st, f2)" and
    r3: "read_int32 f2 = Inr (lu, f3)" and r4: "read_int64 f3 = Inr (tok, f4)" and
    r6: "read_int32 (snd (f_read 20 f4)) = Inr (cn, f6)" and
    r8: "f_read_int (int (f_tell f1 + sz) - int (f_tell (snd (f_read 20 f6))))
           (snd (f_read 20 f6)) = Inr (bc, f')"
    by (auto simp: read_app_def Let_def split: sum.splits prod.splits)
  note a1 = read_int32_Inr [OF r1] and a2 = read_int32_Inr [OF r2]
    and a3 = read_int32_Inr [OF r3] and a4 = read_int64_Inr [OF r4]
    and a6 = read_int32_Inr [OF r6] and a8 = f_read_int_Inr [OF r8]
  show ?thesis
    using a1 a2 a3 a4 a6 a8 f_read_pos [of 20 f4] f_read_pos [of 20 f6] by simp
qed

lemma f_read_fits:
  "pos f + n \<le> length (content f) \<Longrightarrow>
   f_read n f = (py_slice (content f) (pos f) (pos f + n), f\<lparr>pos := pos f + n\<rparr>)"
  by (simp add: f_read_def py_slice_def Let_def)

lemma read_int32_eq:
  "read_int32 f =
     (if pos f + 4 \<le> length (content f)
      then Inr (le_nat (py_slice (content f) (pos f) (pos f + 4)), f\<lparr>pos := pos f + 4\<rparr>)
      else Inl StructError)"
  by (auto simp: read_int32_def unpack_int32_def f_read_def py_slice_def Let_def)

lemma read_int64_eq:
  "read_int64 f =
     (if pos f + 8 \<le> length (content f)
      then Inr (le_nat (py_slice (content f) (pos f) (pos f + 8)), f\<lparr>pos := pos f + 8\<rparr>)
      else Inl StructError)"
  by (auto simp: read_int64_def unpack_int64_def f_read_def py_slice_def Let_def)

lemma length_py_slice: "j \<le> length xs \<Longrightarrow> i \<le> j \<Longrightarrow> length (py_slice xs i j) = j - i"
  by (simp add: py_slice_def)

lemma f_read_int_fits:
  assumes "pos f \<le> b" and "b \<le> length (content f)"
  shows "f_read_int (int b - int (pos f)) f
           = Inr (py_slice (content f) (pos f) b, f\<lparr>pos := b\<rparr>)"
proof -
  have "nat (int b - int (pos f)) = b - pos f"
    by simp
  with assms show ?thesis
    by (simp add: f_read_int_def f_read_def py_slice_def Let_def min_def
        del: of_nat_diff)
qed

text \<open>A record that lies inside the buffer and declares at least the 60 bytes of its
  fixed fields: every read is complete, and the cursor ends at \<open>end\<close>.\<close>

lemma read_app_fits:
  assumes sz: "sz = le_nat (py_slice (content f) (pos f) (pos f + 4))"
    and big: "60 \<le> sz"
    and fits: "pos f + 4 + sz \<le> length (content f)"
  shows "read_app aid f =
     Inr (\<lparr>appid = aid,
           info_state = le_nat (py_slice (content f) (pos f + 4) (pos f + 8)),
           last_updated = le_nat (py_slice (content f) (pos f + 8) (pos f + 12)),
           picsToken = le_nat (py_slice (content f) (pos f + 12) (pos f + 20)),
           sha1Text = py_slice (content f) (pos f + 20) (pos f + 40),
           change_number = le_nat (py_slice (content f) (pos f + 40) (pos f + 44)),
           sha1Binary = py_slice (content f) (pos f + 44) (pos f + 64),
           name = None, type = None, icon_hash = None,
           binary_content = py_slice (content f) (pos f + 64) (pos f + 4 + sz)\<rparr>,
          f\<lparr>pos := pos f + 4 + sz\<rparr>)"
proof -
  let ?c = "content f" and ?p = "pos f"
  have r1: "read_int32 f = Inr (sz, f\<lparr>pos := ?p + 4\<rparr>)"
    using fits big by (simp add: read_int32_eq sz)
  have r2: "read_int32 (f\<lparr>pos := ?p + 4\<rparr>)
      = Inr (le_nat (py_slice ?c (?p + 4) (?p + 8)), f\<lparr>pos := ?p + 8\<rparr>)"
    using fits big by (simp add: read_int32_eq add.commute)
  have r3: "read_int32 (f\<lparr>pos := ?p + 8\<rparr>)
      = Inr (le_nat (py_slice ?c (?p + 8) (?p + 12)), f\<lparr>pos := ?p + 12\<rparr>)"
    using fits big by (simp add: read_int32_eq add.commute)
  have r4: "read_int64 (f\<lparr>pos := ?p + 12\<rparr>)
      = Inr (le_nat (py_slice ?c (?p + 12) (?p + 20)), f\<lparr>pos := ?p + 20\<rparr>)"
    using fits big by (simp add: read_int64_eq add.commute)
  have r5: "f_read 20 (f\<lparr>pos := ?p + 20\<rparr>)
      = (py_slice ?c (?p + 20) (?p + 40), f\<lparr>pos := ?p + 40\<rparr>)"
    using fits big by (simp add: f_read_fits add.commute)
  have r6: "read_int32 (f\<lparr>pos := ?p + 40\<rparr>)
      = Inr (le_nat (py_slice ?c (?p + 40) (?p + 44)), f\<lparr>pos := ?p + 44\<rparr>)"
    using fits big by (simp add: read_int32_eq add.commute)
  have r7: "f_read 20 (f\<lparr>pos := ?p + 44\<rparr>)
      = (py_slice ?c (?p + 44) (?p + 64), f\<lparr>pos := ?p + 64\<rparr>)"
    using fits big by (simp add: f_read_fits add.commute)
  have r8: "f_read_int (int (?p + 4 + sz) - int (?p + 64)) (f\<lparr>pos := ?p + 64\<rparr>)
      = Inr (py_slice ?c (?p + 64) (?p + 4 + sz), f\<lparr>pos := ?p + 4 + sz\<rparr>)"
    using f_read_int_fits [of "f\<lparr>pos := ?p + 64\<rparr>" "?p + 4 + sz"] fits big by simp
  show ?thesis
    by (simp add: read_app_def r1 r2 r3 r4 r5 r6 r7 r8 f_tell_def
        del: of_nat_add of_nat_diff)
qed

lemma le_nat_replicate_zero [simp]: "le_nat (replicate n 0) = 0"
  by (induction n) auto

section \<open>The value scan\<close>

lemma slice1_in: "i < length bc \<Longrightarrow> py_slice bc i (Suc i) = [bc ! i]"
  by (simp add: py_slice_def take_Suc_conv_app_nth Cons_nth_drop_Suc [symmetric])

lemma slice1_out: "length bc \<le> i \<Longrightarrow> py_slice bc i (Suc i) = []"
  by (simp add: py_slice_def)

text \<open>The scan returns exactly when a zero byte lies at or after its start index, and
  then it returns the bytes before the first one; otherwise it has no result.\<close>

lemma scan_value_Some:
  "0 \<in> set (drop i bc) \<Longrightarrow>
   scan_value bc i acc = Some (acc @ takeWhile (\<lambda>b. b \<noteq> 0) (drop i bc))"
proof (induction "length bc - i" arbitrary: i acc)
  case 0
  then show ?case by simp
next
  case (Suc n)
  then have lt: "i < length bc" by simp
  then have d: "drop i bc = bc ! i # drop (Suc i) bc"
    by (simp add: Cons_nth_drop_Suc)
  show ?case
  proof (cases "bc ! i = 0")
    case True
    then show ?thesis
      by (subst scan_value.simps) (simp add: slice1_in [OF lt] d)
  next
    case False
    with Suc.prems d have z: "0 \<in> set (drop (Suc i) bc)" by simp
    have n: "n = length bc - Suc i" using Suc.hyps(2) by simp
    from Suc.hyps(1) [OF n z]
    show ?thesis
      using False
      by (subst scan_value.simps) (simp add: slice1_in [OF lt] d)
  qed
qed

lemma scan_value_returns_zero:
  "scan_value bc i acc = Some v \<Longrightarrow> 0 \<in> set (drop i bc)"
proof (induction rule: scan_value.raw_induct [rotated 1, consumes 1, case_names step])
  case (step scan bc i acc v)
  show ?case
  proof (cases "i < length bc")
    case True
    then have d: "drop i bc = bc ! i # drop (Suc i) bc"
      by (simp add: Cons_nth_drop_Suc)
    show ?thesis
    proof (cases "bc ! i = 0")
      case True
      with d show ?thesis by simp
    next
      case False
      with step(2) \<open>i < length bc\<close> have "scan bc (Suc i) (acc @ py_slice bc i (Suc i)) = Some v"
        by (simp add: slice1_in)
      from step(1) [OF this] d show ?thesis by simp
    qed
  next
    case False
    with step(2) have "scan bc (Suc i) (acc @ py_slice bc i (Suc i)) = Some v"
      by (simp add: slice1_out)
    from step(1) [OF this] False show ?thesis by simp
  qed
qed

lemma scan_value_None:
  "0 \<notin> set (drop i bc) \<Longrightarrow> scan_value bc i acc = None"
  using scan_value_returns_zero [of bc i acc] by (cases "scan_value bc i acc") auto

section \<open>Reading back an encoded record\<close>

lemma length_le_bytes [simp]: "length (le_bytes k n) = k"
  by (induction k arbitrary: n) auto

lemma le_nat_le_bytes: "le_nat (le_bytes k n) = n mod 256 ^ k"
proof (induction k arbitrary: n)
  case 0
  then show ?case by simp
next
  case (Suc k)
  have "unat (of_nat (n mod 256) :: byte) = n mod 256"
    by (simp add: unat_of_nat)
  then show ?case
    by (simp add: Suc mod_mult2_eq)
qed

lemma length_pack [simp]: "length (pack_int32 n) = 4" "length (pack_int64 n) = 8"
  by (simp_all add: pack_int32_def pack_int64_def)

lemma le_nat_pack_int32: "n < 2 ^ 32 \<Longrightarrow> le_nat (pack_int32 n) = n"
  by (simp add: pack_int32_def le_nat_le_bytes)

lemma le_nat_pack_int64: "n < 2 ^ 64 \<Longrightarrow> le_nat (pack_int64 n) = n"
  by (simp add: pack_int64_def le_nat_le_bytes)

lemma length_encode_app:
  "raw_record a \<Longrightarrow> length (encode_app a) = 68 + length (binary_content a)"
  by (simp add: encode_app_def raw_record_def)

lemma py_slice_shift: "py_slice c (p + a) (p + b) = py_slice (drop p c) a b"
  by (simp add: py_slice_def add.commute)

lemma py_slice_shift0: "py_slice c p (p + b) = py_slice (drop p c) 0 b"
  by (simp add: py_slice_def)

lemma layout_fits:
  "drop p c = xs @ rest \<Longrightarrow> xs \<noteq> [] \<Longrightarrow> p + length xs \<le> length c"
proof -
  assume a: "drop p c = xs @ rest" and ne: "xs \<noteq> []"
  have "length (drop p c) = length xs + length rest"
    by (simp add: a)
  with ne show ?thesis by (cases "p \<le> length c") auto
qed

lemma read_app_fields:
  assumes sz: "sz = le_nat (py_slice (content f) (pos f) (pos f + 4))"
    and big: "60 \<le> sz"
    and fits: "pos f + 4 + sz \<le> length (content f)"
  shows "\<exists>a. read_app aid f = Inr (a, f\<lparr>pos := pos f + 4 + sz\<rparr>)
     \<and> appid a = aid
     \<and> info_state a = le_nat (py_slice (content f) (pos f + 4) (pos f + 8))
     \<and> last_updated a = le_nat (py_slice (content f) (pos f + 8) (pos f + 12))
     \<and> picsToken a = le_nat (py_slice (content f) (pos f + 12) (pos f + 20))
     \<and> sha1Text a = py_slice (content f) (pos f + 20) (pos f + 40)
     \<and> change_number a = le_nat (py_slice (content f) (pos f + 40) (pos f + 44))
     \<and> sha1Binary a = py_slice (content f) (pos f + 44) (pos f + 64)
     \<and> name a = None \<and> type a = None \<and> icon_hash a = None
     \<and> binary_content a = py_slice (content f) (pos f + 64) (pos f + 4 + sz)"
  by (simp add: read_app_fits [OF assms])

text \<open>Reading the encoding of a raw record gives the record back and moves the cursor
  to the byte after it.\<close>

lemma decode_record:
  assumes raw: "raw_record r"
    and lay: "drop (pos f) (content f) = encode_app r @ rest"
  shows "read_int32 f = Inr (appid r, f\<lparr>pos := pos f + 4\<rparr>)"
    and "read_app (appid r) (f\<lparr>pos := pos f + 4\<rparr>)
           = Inr (r, f\<lparr>pos := pos f + 68 + length (binary_content r)\<rparr>)"
proof -
  let ?c = "content f" and ?p = "pos f" and ?n = "length (binary_content r)"
  have len: "length (encode_app r) = 68 + ?n"
    by (rule length_encode_app [OF raw])
  then have ne: "encode_app r \<noteq> []"
    by auto
  have fits: "?p + 68 + ?n \<le> length ?c"
    using layout_fits [OF lay ne] len by simp
  have s0: "py_slice ?c ?p (?p + 4) = pack_int32 (appid r)"
    by (simp add: py_slice_shift0 lay) (simp add: py_slice_def encode_app_def)
  have s1: "py_slice ?c (?p + 4) (?p + 8) = pack_int32 (60 + ?n)"
    by (simp add: py_slice_shift lay) (simp add: py_slice_def encode_app_def)
  have s2: "py_slice ?c (?p + 8) (?p + 12) = pack_int32 (info_state r)"
    by (simp add: py_slice_shift lay) (simp add: py_slice_def encode_app_def)
  have s3: "py_slice ?c (?p + 12) (?p + 16) = pack_int32 (last_updated r)"
    by (simp add: py_slice_shift lay) (simp add: py_slice_def encode_app_def)
  have s4: "py_slice ?c (?p + 16) (?p + 24) = pack_int64 (picsToken r)"
    by (simp add: py_slice_shift lay) (simp add: py_slice_def encode_app_def)
  have s5: "py_slice ?c (?p + 24) (?p + 44) = sha1Text r"
    using raw
    by (simp add: py_slice_shift lay) (simp add: py_slice_def encode_app_def raw_record_def)
  have s6: "py_slice ?c (?p + 44) (?p + 48) = pack_int32 (change_number r)"
    using raw
    by (simp add: py_slice_shift lay) (simp add: py_slice_def encode_app_def raw_record_def)
  have s7: "py_slice ?c (?p + 48) (?p + 68) = sha1Binary r"
    using raw
    by (simp add: py_slice_shift lay) (simp add: py_slice_def encode_app_def raw_record_def)
  have s8: "py_slice ?c (?p + 68) (?p + (68 + ?n)) = binary_content r"
    using raw
    by (simp add: py_slice_shift lay) (simp add: py_slice_def encode_app_def raw_record_def)
  show "read_int32 f = Inr (appid r, f\<lparr>pos := pos f + 4\<rparr>)"
    using fits raw s0 by (simp add: read_int32_eq le_nat_pack_int32 raw_record_def)
  let ?f = "f\<lparr>pos := ?p + 4\<rparr>"
  have sz: "60 + ?n = le_nat (py_slice (content ?f) (pos ?f) (pos ?f + 4))"
    using raw s1 by (simp add: le_nat_pack_int32 raw_record_def add.commute)
  have big: "60 \<le> 60 + ?n" by simp
  have fits': "pos ?f + 4 + (60 + ?n) \<le> length (content ?f)"
    using fits by simp
  from read_app_fields [OF sz big fits', of "appid r"]
  obtain a where ra: "read_app (appid r) ?f = Inr (a, ?f\<lparr>pos := pos ?f + 4 + (60 + ?n)\<rparr>)"
    and f0: "appid a = appid r"
    and f1: "info_state a = le_nat (py_slice (content ?f) (pos ?f + 4) (pos ?f + 8))"
    and f2: "last_updated a = le_nat (py_slice (content ?f) (pos ?f + 8) (pos ?f + 12))"
    and f3: "picsToken a = le_nat (py_slice (content ?f) (pos ?f + 12) (pos ?f + 20))"
    and f4: "sha1Text a = py_slice (content ?f) (pos ?f + 20) (pos ?f + 40)"
    and f5: "change_number a = le_nat (py_slice (content ?f) (pos ?f + 40) (pos ?f + 44))"
    and f6: "sha1Binary a = py_slice (content ?f) (pos ?f + 44) (pos ?f + 64)"
    and f7: "name a = None" "type a = None" "icon_hash a = None"
    and f8: "binary_content a = py_slice (content ?f) (pos ?f + 64) (pos ?f + 4 + (60 + ?n))"
    by blast
  have "a = r"
  proof (rule app.equality)
    show "appid a = appid r" by (rule f0)
    show "info_state a = info_state r"
      using raw s2 f1 by (simp add: le_nat_pack_int32 raw_record_def add.commute)
    show "last_updated a = last_updated r"
      using raw s3 f2 by (simp add: le_nat_pack_int32 raw_record_def add.commute)
    show "picsToken a = picsToken r"
      using raw s4 f3 by (simp add: le_nat_pack_int64 raw_record_def add.commute)
    show "sha1Text a = sha1Text r"
      using s5 f4 by (simp add: add.commute)
    show "change_number a = change_number r"
      using raw s6 f5 by (simp add: le_nat_pack_int32 raw_record_def add.commute)
    show "sha1Binary a = sha1Binary r"
      using s7 f6 by (simp add: add.commute)
    show "name a = name r" "type a = type r" "icon_hash a = icon_hash r"
      using raw f7 by (simp_all add: raw_record_def)
    show "binary_content a = binary_content r"
      using s8 f8 by (simp add: ac_simps)
  qed simp
  with ra show "read_app (appid r) ?f = Inr (r, f\<lparr>pos := ?p + 68 + ?n\<rparr>)"
    by (simp add: add.assoc)
qed

section \<open>Field extraction\<close>

lemma bytes_index_Some:
  "bytes_index sub xs = Some i \<Longrightarrow>
     take (length sub) (drop i xs) = sub \<and> i + length sub \<le> length xs
     \<and> (\<forall>j<i. take (length sub) (drop j xs) \<noteq> sub)"
proof (induction xs arbitrary: i)
  case Nil
  then show ?case by (simp split: if_splits)
next
  case (Cons x xs)
  show ?case
  proof (cases "take (length sub) (x # xs) = sub")
    case True
    with Cons.prems have "i = 0" by simp
    have "length (take (length sub) (x # xs)) = length sub"
      by (simp only: True)
    then have "length sub \<le> length (x # xs)"
      by (simp add: min_def split: if_splits)
    with True \<open>i = 0\<close> show ?thesis
      by simp
  next
    case False
    with Cons.prems obtain k where k: "bytes_index sub xs = Some k" "i = Suc k"
      by auto
    from Cons.IH [OF k(1)] False k(2) show ?thesis
      by (auto simp: less_Suc_eq_0_disj)
  qed
qed

lemma bytes_index_None:
  "bytes_index sub xs = None \<Longrightarrow> take (length sub) (drop j xs) \<noteq> sub \<or> length xs < j"
proof (induction xs arbitrary: j)
  case Nil
  then show ?case by (auto split: if_splits)
next
  case (Cons x xs)
  then show ?case
    by (cases j) (auto split: if_splits)
qed

text \<open>The field extractions in closed form: absent marker, unterminated value (no
  result), or the decoding of the value.\<close>

lemma extract_name_eq:
  "extract_name a =
     (if bytes_in name_marker (binary_content a) then
        if zero_terminated name_marker (binary_content a) then
          (case bytes_decode (marker_value name_marker (binary_content a)) of
             Inl e \<Rightarrow> Some (Inl e)
           | Inr s \<Rightarrow> Some (Inr (a\<lparr>name := Some s\<rparr>)))
        else None
      else Some (Inr a))"
  by (simp add: extract_name_def zero_terminated_def marker_value_def Let_def
      scan_value_Some scan_value_None)

lemma extract_obj_type_eq:
  "extract_obj_type a =
     (if bytes_in type_marker (binary_content a) then
        if zero_terminated type_marker (binary_content a) then
          if marker_value type_marker (binary_content a) \<in> set type_tags then
            (case bytes_decode (marker_value type_marker (binary_content a)) of
               Inl e \<Rightarrow> Some (Inl e)
             | Inr s \<Rightarrow> Some (Inr (a\<lparr>type := Some s\<rparr>)))
          else Some (Inr a)
        else None
      else Some (Inr a))"
  by (simp add: extract_obj_type_def zero_terminated_def marker_value_def Let_def
      scan_value_Some scan_value_None)

lemma utf8_decode_ascii:
  "\<forall>b \<in> set bs. b < 0x80 \<Longrightarrow> utf8_decode bs = Some (map unat bs)"
  by (induction bs) auto

lemma type_tags_ascii: "v \<in> set type_tags \<Longrightarrow> \<forall>b \<in> set v. b < 0x80"
  by (auto simp: type_tags_def bytes_lit_def)

lemma bytes_decode_tag: "v \<in> set type_tags \<Longrightarrow> bytes_decode v = Inr (map unat v)"
  by (simp add: bytes_decode_def utf8_decode_ascii type_tags_ascii)

lemma extract_name_ok:
  assumes "bytes_in name_marker (binary_content a) \<longrightarrow>
             zero_terminated name_marker (binary_content a)
             \<and> utf8_decode (marker_value name_marker (binary_content a)) \<noteq> None"
  shows "\<exists>a'. extract_name a = Some (Inr a') \<and> binary_content a' = binary_content a
           \<and> appid a' = appid a"
proof (cases "bytes_in name_marker (binary_content a)")
  case True
  with assms obtain s where
    "utf8_decode (marker_value name_marker (binary_content a)) = Some s"
    and "zero_terminated name_marker (binary_content a)"
    by auto
  with True show ?thesis
    by (simp add: extract_name_eq bytes_decode_def)
next
  case False
  then show ?thesis by (simp add: extract_name_eq)
qed

lemma extract_obj_type_ok:
  assumes "bytes_in type_marker (binary_content a) \<longrightarrow>
             zero_terminated type_marker (binary_content a)"
  shows "\<exists>a'. extract_obj_type a = Some (Inr a') \<and> binary_content a' = binary_content a
           \<and> appid a' = appid a"
  using assms by (simp add: extract_obj_type_eq bytes_decode_tag)

lemma extract_icon_ok:
  assumes "bytes_in icon_marker (binary_content a) \<longrightarrow>
        utf8_decode (py_slice (binary_content a)
           (the (bytes_index icon_marker (binary_content a)) + 5)
           (the (bytes_index icon_marker (binary_content a)) + 5 + 40)) \<noteq> None"
  shows "\<exists>a'. extract_icon a = Inr a' \<and> binary_content a' = binary_content a
           \<and> appid a' = appid a"
proof (cases "bytes_in icon_marker (binary_content a)")
  case True
  with assms obtain s where
    "utf8_decode (py_slice (binary_content a)
           (the (bytes_index icon_marker (binary_content a)) + 5)
           (the (bytes_index icon_marker (binary_content a)) + 5 + 40)) = Some s"
    by auto
  with True show ?thesis
    by (simp add: extract_icon_def bytes_decode_def Let_def)
next
  case False
  then show ?thesis by (simp add: extract_icon_def)
qed

lemma extract_fields_ok:
  assumes "fields_ok (binary_content a)"
  shows "\<exists>a'. extract_fields a = Some (Inr a') \<and> binary_content a' = binary_content a
           \<and> appid a' = appid a"
proof -
  let ?bc = "binary_content a"
  from assms obtain a1 where a1: "extract_name a = Some (Inr a1)" "binary_content a1 = ?bc"
      "appid a1 = appid a"
    using extract_name_ok [of a] unfolding fields_ok_def by blast
  from assms a1(2) obtain a2 where a2: "extract_obj_type a1 = Some (Inr a2)"
      "binary_content a2 = ?bc" "appid a2 = appid a1"
    using extract_obj_type_ok [of a1] unfolding fields_ok_def by metis
  from assms a2(2) obtain a3 where a3: "extract_icon a2 = Inr a3" "binary_content a3 = ?bc"
      "appid a3 = appid a2"
    using extract_icon_ok [of a2] unfolding fields_ok_def by metis
  show ?thesis
    by (simp add: extract_fields_def a1 a2 a3)
qed

section \<open>The filename sanitiser\<close>

lemma replace_step:
  "(if c \<in> set fn then replace_char c r fn else fn) = replace_char c r fn"
  by (induction fn) (auto simp: replace_char_def)

lemma fold_replace:
  "space \<notin> set cs \<Longrightarrow>
   fold (\<lambda>char fn. if char \<in> set fn then replace_char char space fn else fn) cs s
     = map (\<lambda>x. if x \<in> set cs then space else x) s"
proof (induction cs arbitrary: s)
  case Nil
  then show ?case by simp
next
  case (Cons c cs)
  then show ?case
    by (simp add: replace_step) (auto simp: replace_char_def)
qed

lemma remove_forbidden_map:
  "remove_forbidden s = map (\<lambda>x. if x \<in> set forbidden_chars then space else x) s"
  unfolding remove_forbidden_def
  by (rule fold_replace) (simp add: forbidden_chars_def space_def)

lemma strip_prefix_dropWhile: "strip_prefix s = dropWhile (\<lambda>c. c = space) s"
  by (induction s) auto

lemma strip_suffix_dropWhile: "strip_suffix s = rev (dropWhile (\<lambda>c. c = space) (rev s))"
proof (induction s rule: strip_suffix.induct)
  case (1 s)
  show ?case
  proof (cases "s \<noteq> [] \<and> last s = space")
    case True
    then obtain ys where s: "s = ys @ [space]"
      by (metis append_butlast_last_id)
    with 1 True show ?thesis
      by (subst strip_suffix.simps) simp
  next
    case False
    then show ?thesis
      by (subst strip_suffix.simps) (cases s rule: rev_cases; auto)
  qed
qed

lemma get_valid_file_name_eq:
  "get_valid_file_name s =
     rev (dropWhile (\<lambda>c. c = space) (rev (dropWhile (\<lambda>c. c = space)
       (map (\<lambda>x. if x \<in> set forbidden_chars then space else x) s))))"
  by (simp add: get_valid_file_name_def remove_forbidden_map strip_prefix_dropWhile
      strip_suffix_dropWhile)

lemma get_valid_no_forbidden: "set (get_valid_file_name s) \<inter> set forbidden_chars = {}"
proof -
  have "set (get_valid_file_name s) \<subseteq>
        set (map (\<lambda>x. if x \<in> set forbidden_chars then space else x) s)"
    unfolding get_valid_file_name_eq
    by (auto dest!: set_dropWhileD)
  moreover have "space \<notin> set forbidden_chars"
    by (simp add: forbidden_chars_def space_def)
  ultimately show ?thesis by auto
qed

lemma rev_dropWhile_hd:
  assumes "xs = [] \<or> \<not> P (hd xs)"
  shows "rev (dropWhile P (rev xs)) = [] \<or> \<not> P (hd (rev (dropWhile P (rev xs))))"
proof (cases xs)
  case Nil
  then show ?thesis by simp
next
  case (Cons x ys)
  with assms have nP: "\<not> P x" by simp
  have "rev (dropWhile P (rev (x # ys))) = x # rev (dropWhile P (rev ys))"
    using nP by (simp add: dropWhile_append)
  then show ?thesis using nP Cons by simp
qed

lemma rev_dropWhile_last:
  "rev (dropWhile P (rev xs)) = [] \<or> \<not> P (last (rev (dropWhile P (rev xs))))"
proof (cases "dropWhile P (rev xs)")
  case Nil
  then show ?thesis by simp
next
  case (Cons y ys)
  then have "\<not> P y"
    using hd_dropWhile [of P "rev xs"] by simp
  with Cons show ?thesis by simp
qed

lemma not_startswith_hd: "r = [] \<or> hd r \<noteq> c \<Longrightarrow> \<not> startswith r [c]"
  by (cases r) (auto simp: startswith_def)

lemma not_endswith_last: "r = [] \<or> last r \<noteq> c \<Longrightarrow> \<not> endswith r [c]"
  by (cases r rule: rev_cases) (auto simp: endswith_def)

lemma get_valid_not_startswith: "\<not> startswith (get_valid_file_name s) [space]"
proof -
  define m where
    "m = dropWhile (\<lambda>c. c = space)
           (map (\<lambda>x. if x \<in> set forbidden_chars then space else x) s)"
  have "m = [] \<or> \<not> (hd m = space)"
    unfolding m_def using hd_dropWhile [of "\<lambda>c. c = space"] by blast
  then have "rev (dropWhile (\<lambda>c. c = space) (rev m)) = []
      \<or> hd (rev (dropWhile (\<lambda>c. c = space) (rev m))) \<noteq> space"
    by (rule rev_dropWhile_hd [of m "\<lambda>c. c = space"])
  then have "\<not> startswith (rev (dropWhile (\<lambda>c. c = space) (rev m))) [space]"
    by (rule not_startswith_hd)
  then show ?thesis
    unfolding get_valid_file_name_eq m_def by blast
qed

lemma get_valid_not_endswith: "\<not> endswith (get_valid_file_name s) [space]"
proof -
  define m where
    "m = dropWhile (\<lambda>c. c = space)
           (map (\<lambda>x. if x \<in> set forbidden_chars then space else x) s)"
  have "rev (dropWhile (\<lambda>c. c = space) (rev m)) = []
      \<or> last (rev (dropWhile (\<lambda>c. c = space) (rev m))) \<noteq> space"
    by (rule rev_dropWhile_last [of "\<lambda>c. c = space" m])
  then have "\<not> endswith (rev (dropWhile (\<lambda>c. c = space) (rev m))) [space]"
    by (rule not_endswith_last)
  then show ?thesis
    unfolding get_valid_file_name_eq m_def by blast
qed

lemma valid_fixpoint:
  assumes "set r \<inter> set forbidden_chars = {}" "\<not> startswith r [space]"
    "\<not> endswith r [space]"
  shows "get_valid_file_name r = r"
proof -
  have m: "map (\<lambda>x. if x \<in> set forbidden_chars then space else x) r = r"
    using assms(1) by (intro map_idI) auto
  have d1: "dropWhile (\<lambda>c. c = space) r = r"
    using assms(2) by (cases r) (auto simp: startswith_def)
  have d2: "dropWhile (\<lambda>c. c = space) (rev r) = rev r"
    using assms(3) by (cases r rule: rev_cases) (auto simp: endswith_def)
  show ?thesis by (simp add: get_valid_file_name_eq m d1 d2)
qed

text \<open>
  Claim C10. For every input string, the result of \<^verbatim>\<open>get_valid_file_name\<close> contains
  none of the nine forbidden characters, does not start with a space and does not end
  with a space; applying the function to its own result changes nothing.
\<close>

theorem get_valid_file_name_valid:
  "set (get_valid_file_name s) \<inter> set forbidden_chars = {}
   \<and> \<not> startswith (get_valid_file_name s) [space]
   \<and> \<not> endswith (get_valid_file_name s) [space]
   \<and> get_valid_file_name (get_valid_file_name s) = get_valid_file_name s"
  using get_valid_no_forbidden get_valid_not_startswith get_valid_not_endswith valid_fixpoint
  by blast

section \<open>The record loop\<close>

lemma le_nat_pack_zero: "le_nat (pack_int32 0) = 0"
  by (simp add: le_nat_pack_int32)

lemma read_games_sentinel:
  assumes "drop (pos f) (content f) = pack_int32 0 @ rest"
  shows "read_games f d = Some (Inr d)"
proof -
  have ne: "pack_int32 0 \<noteq> []"
    by (metis length_pack(1) list.size(3) zero_neq_numeral)
  have fits: "pos f + 4 \<le> length (content f)"
    using layout_fits [OF assms ne] by simp
  have s: "py_slice (content f) (pos f) (pos f + 4) = pack_int32 0"
    by (simp add: py_slice_shift0 assms) (simp add: py_slice_def)
  show ?thesis
    using fits by (subst read_games.simps) (simp add: read_int32_eq s le_nat_pack_zero)
qed

lemma read_games_record:
  assumes raw: "raw_record r"
    and lay: "drop (pos f) (content f) = encode_app r @ rest"
    and ex: "extract_fields r = Some (Inr a)"
  shows "read_games f d =
     read_games (f\<lparr>pos := pos f + length (encode_app r)\<rparr>) (AList.update (appid r) a d)"
proof -
  have nz: "appid r \<noteq> 0"
    using raw by (simp add: raw_record_def)
  show ?thesis
    using nz
    by (subst read_games.simps)
       (simp add: decode_record [OF raw lay] ex length_encode_app [OF raw] add.assoc)
qed

lemma decoded_ok:
  "fields_ok (binary_content r) \<Longrightarrow> extract_fields r = Some (Inr (decoded r))"
  using extract_fields_ok [of r] by (auto simp: decoded_def)

text \<open>The loop over the encodings of well-formed records: it reaches the byte after the
  last one with the store built by assignment in order.\<close>

lemma read_games_records:
  assumes "\<forall>r \<in> set recs. raw_record r \<and> fields_ok (binary_content r)"
    and "drop (pos f) (content f) = concat (map encode_app recs) @ rest"
  shows "read_games f d =
     read_games (f\<lparr>pos := pos f + length (concat (map encode_app recs))\<rparr>) (store_of recs d)"
  using assms
proof (induction recs arbitrary: f d)
  case Nil
  then show ?case by (simp add: store_of_def)
next
  case (Cons r recs)
  let ?f = "f\<lparr>pos := pos f + length (encode_app r)\<rparr>"
  have raw: "raw_record r" and ok: "fields_ok (binary_content r)"
    using Cons.prems(1) by simp_all
  have lay: "drop (pos f) (content f) = encode_app r @ (concat (map encode_app recs) @ rest)"
    using Cons.prems(2) by simp
  have step: "read_games f d = read_games ?f (AList.update (appid r) (decoded r) d)"
    by (rule read_games_record [OF raw lay decoded_ok [OF ok]])
  have "drop (length (encode_app r)) (drop (pos f) (content f))
          = concat (map encode_app recs) @ rest"
    by (simp add: lay)
  then have lay': "drop (pos ?f) (content ?f) = concat (map encode_app recs) @ rest"
    by (simp add: add.commute)
  have rest: "\<forall>r \<in> set recs. raw_record r \<and> fields_ok (binary_content r)"
    using Cons.prems(1) by simp
  show ?case
    by (simp add: step Cons.IH [OF rest lay'] store_of_def add.assoc)
qed

lemma store_of_keys: "fst ` set (store_of recs d) = fst ` set d \<union> appid ` set recs"
  unfolding store_of_def
  by (induction recs arbitrary: d) (auto simp: dom_update)

lemma store_of_distinct: "distinct (map fst d) \<Longrightarrow> distinct (map fst (store_of recs d))"
  unfolding store_of_def
  by (induction recs arbitrary: d) (auto simp: distinct_update)

lemma store_of_other:
  "k \<notin> appid ` set recs \<Longrightarrow> map_of (store_of recs d) k = map_of d k"
  unfolding store_of_def
  by (induction recs arbitrary: d) (auto simp: update_conv')

lemma store_of_last:
  assumes "recs = pre @ r # post" and "appid r \<notin> appid ` set post"
  shows "map_of (store_of recs d) (appid r) = Some (decoded r)"
proof -
  have "store_of recs d
      = store_of post (AList.update (appid r) (decoded r) (store_of pre d))"
    by (simp add: store_of_def assms(1))
  then show ?thesis
    by (simp add: store_of_other [OF assms(2)] update_conv')
qed

section \<open>The header, and which exception can come from where\<close>

lemma magic_length: "take 4 buf = magic_bytes \<Longrightarrow> 4 \<le> length buf"
proof -
  assume a: "take 4 buf = magic_bytes"
  have "length (take 4 buf) = 4"
    by (simp only: a) (simp add: magic_bytes_def)
  then show ?thesis by (simp add: min_def split: if_splits)
qed

text \<open>The header phase in closed form, with its five ways to fail.\<close>

lemma read_header_eq:
  "read_header lim \<lparr>content = buf, pos = 0\<rparr> =
     (if take 4 buf \<noteq> magic_bytes then Inl SyntaxError
      else if length buf < 16 then Inl StructError
      else if 2 ^ 63 - 1 < 16 + le_nat (py_slice buf 8 16) then Inl ValueError
      else if length buf < 16 + le_nat (py_slice buf 8 16)
              \<and> lim < 16 + le_nat (py_slice buf 8 16) then Inl OSError
      else if length buf < 16 + le_nat (py_slice buf 8 16) + 4 then Inl StructError
      else Inr (\<lparr>universe = le_nat (py_slice buf 4 8),
                 string_table_offset = le_nat (py_slice buf 8 16),
                 string_count =
                   le_nat (py_slice buf (16 + le_nat (py_slice buf 8 16))
                             (16 + le_nat (py_slice buf 8 16) + 4))\<rparr>,
                \<lparr>content = buf, pos = 16\<rparr>))"
proof (cases "take 4 buf = magic_bytes")
  case False
  then show ?thesis
    by (simp add: read_header_def f_read_def Let_def)
next
  case True
  note len4 = magic_length [OF True]
  have m: "f_read 4 \<lparr>content = buf, pos = 0\<rparr> = (magic_bytes, \<lparr>content = buf, pos = 4\<rparr>)"
    using True len4 by (simp add: f_read_def Let_def magic_bytes_def)
  show ?thesis
  proof (cases "length buf < 8")
    case True
    then show ?thesis
      using \<open>take 4 buf = magic_bytes\<close>
      by (simp add: read_header_def m read_int32_eq)
  next
    case ge8: False
    show ?thesis
    proof (cases "length buf < 16")
      case True
      then show ?thesis
        using \<open>take 4 buf = magic_bytes\<close> ge8
        by (simp add: read_header_def m read_int32_eq read_int64_eq)
    next
      case ge16: False
      show ?thesis
        using \<open>take 4 buf = magic_bytes\<close> ge8 ge16
        by (auto simp: read_header_def m read_int32_eq read_int64_eq f_tell_def f_seek_def
            Let_def add.commute)
    qed
  qed
qed

lemma read_int32_error: "read_int32 f = Inl e \<Longrightarrow> e = StructError"
  by (simp add: read_int32_eq split: if_splits)

lemma read_int64_error: "read_int64 f = Inl e \<Longrightarrow> e = StructError"
  by (simp add: read_int64_eq split: if_splits)

lemma f_read_int_error: "f_read_int n f = Inl e \<Longrightarrow> e = ValueError"
  by (simp add: f_read_int_def split: if_splits)

lemma read_app_error: "read_app aid f = Inl e \<Longrightarrow> e = StructError \<or> e = ValueError"
  by (auto simp: read_app_def Let_def split: sum.splits prod.splits
      dest: read_int32_error read_int64_error f_read_int_error)

lemma bytes_decode_error: "bytes_decode bs = Inl e \<Longrightarrow> e = UnicodeDecodeError"
  by (simp add: bytes_decode_def split: option.splits)

lemma extract_name_error: "extract_name a = Some (Inl e) \<Longrightarrow> e = UnicodeDecodeError"
  by (auto simp: extract_name_eq split: if_splits sum.splits dest: bytes_decode_error)

lemma extract_obj_type_error: "extract_obj_type a = Some (Inl e) \<Longrightarrow> e = UnicodeDecodeError"
  by (auto simp: extract_obj_type_eq split: if_splits sum.splits dest: bytes_decode_error)

lemma extract_icon_error: "extract_icon a = Inl e \<Longrightarrow> e = UnicodeDecodeError"
  by (auto simp: extract_icon_def Let_def split: if_splits sum.splits dest: bytes_decode_error)

lemma extract_fields_error: "extract_fields a = Some (Inl e) \<Longrightarrow> e = UnicodeDecodeError"
  by (auto simp: extract_fields_def split: option.splits sum.splits
      dest: extract_name_error extract_obj_type_error extract_icon_error)

text \<open>\<^verbatim>\<open>SyntaxError\<close> is raised by the magic test only.\<close>

lemma read_games_error: "read_games f d = Some (Inl e) \<Longrightarrow> e \<noteq> SyntaxError"
proof (induction f d rule: read_games.induct)
  case (1 f d)
  show ?case
  proof (cases "read_int32 f")
    case (Inl e')
    with 1(2) show ?thesis
      by (subst (asm) read_games.simps) (auto dest: read_int32_error)
  next
    case (Inr p)
    obtain aid f1 where p: "p = (aid, f1)" by (cases p)
    show ?thesis
    proof (cases "aid = 0")
      case True
      with 1(2) Inr p show ?thesis
        by (subst (asm) read_games.simps) simp
    next
      case nz: False
      show ?thesis
      proof (cases "read_app aid f1")
        case (Inl e')
        with 1(2) Inr p nz show ?thesis
          by (subst (asm) read_games.simps) (auto dest: read_app_error)
      next
        case ra: (Inr q)
        obtain a0 f2 where q: "q = (a0, f2)" by (cases q)
        show ?thesis
        proof (cases "extract_fields a0")
          case None
          with 1(2) Inr p nz ra q show ?thesis
            by (subst (asm) read_games.simps) simp
        next
          case (Some x)
          show ?thesis
          proof (cases x)
            case (Inl e')
            with 1(2) Inr p nz ra q Some show ?thesis
              by (subst (asm) read_games.simps) (auto dest: extract_fields_error)
          next
            case ea: (Inr a)
            with 1(2) Inr p nz ra q Some
            have "read_games f2 (AList.update aid a d) = Some (Inl e)"
              by (subst (asm) read_games.simps) simp
            with 1(1) [OF Inr p [symmetric] nz ra q [symmetric] Some ea]
            show ?thesis by simp
          qed
        qed
      qed
    qed
  qed
qed

section \<open>The whole decoder on a well-formed buffer\<close>

lemma le_bytes_numeral:
  "le_bytes (numeral k) n = of_nat (n mod 256) # le_bytes (pred_numeral k) (n div 256)"
proof -
  have "le_bytes (numeral k) n = le_bytes (Suc (pred_numeral k)) n"
    by (simp only: numeral_eq_Suc)
  then show ?thesis
    by (simp only: le_bytes.simps)
qed

lemma pack_int32_bytes:
  "pack_int32 n = [of_nat (n mod 256), of_nat (n div 256 mod 256),
     of_nat (n div 65536 mod 256), of_nat (n div 16777216 mod 256)]"
  by (simp add: pack_int32_def le_bytes_numeral div_mult2_eq [symmetric])

lemma pack_int64_bytes:
  "pack_int64 n = [of_nat (n mod 256), of_nat (n div 256 mod 256),
     of_nat (n div 65536 mod 256), of_nat (n div 16777216 mod 256),
     of_nat (n div 4294967296 mod 256), of_nat (n div 1099511627776 mod 256),
     of_nat (n div 281474976710656 mod 256), of_nat (n div 72057594037927936 mod 256)]"
  by (simp add: pack_int64_def le_bytes_numeral div_mult2_eq [symmetric])

lemma length_header_bytes [simp]: "length (header_bytes u sto) = 16"
  by (simp add: header_bytes_def magic_bytes_def)

lemma read_header_layout:
  assumes u: "u < 2 ^ 32" and sto: "sto < 2 ^ 64"
    and tab: "16 + sto + 4 \<le> length buf" and off: "16 + sto \<le> 2 ^ 63 - 1"
    and buf: "buf = header_bytes u sto @ body"
  shows "read_header lim \<lparr>content = buf, pos = 0\<rparr> =
           Inr (\<lparr>universe = u, string_table_offset = sto,
                 string_count = le_nat (py_slice buf (16 + sto) (16 + sto + 4))\<rparr>,
                \<lparr>content = buf, pos = 16\<rparr>)"
    and "drop 16 buf = body"
proof -
  have m: "take 4 buf = magic_bytes"
    by (simp add: buf header_bytes_def magic_bytes_def)
  have su: "py_slice buf 4 8 = pack_int32 u"
    by (simp add: buf header_bytes_def magic_bytes_def py_slice_def)
  have ss: "py_slice buf 8 16 = pack_int64 sto"
    by (simp add: buf header_bytes_def magic_bytes_def py_slice_def)
  show "read_header lim \<lparr>content = buf, pos = 0\<rparr> =
           Inr (\<lparr>universe = u, string_table_offset = sto,
                 string_count = le_nat (py_slice buf (16 + sto) (16 + sto + 4))\<rparr>,
                \<lparr>content = buf, pos = 16\<rparr>)"
    using tab off u sto
    by (simp add: read_header_eq m su ss le_nat_pack_int32 le_nat_pack_int64)
  show "drop 16 buf = body"
    by (simp add: buf)
qed

text \<open>
  Claim C1, as amended. A buffer made of the header, the encodings of raw records whose
  marker values are zero-terminated and decodable, the sentinel and anything after it,
  and whose string count (the four bytes at \<open>16 + stringTableOffset\<close>) lies inside the
  buffer, is decoded: \<^verbatim>\<open>read_appinfo\<close> returns a store, its keys are exactly the appids
  of the records, no key occurs twice, and a key maps to what the field extraction
  makes of the last record carrying it.
\<close>

theorem read_appinfo_well_formed:
  assumes recs: "\<forall>r \<in> set recs. raw_record r \<and> fields_ok (binary_content r)"
    and u: "u < 2 ^ 32" and sto: "sto < 2 ^ 64"
    and tab: "16 + sto + 4 \<le> length buf" and off: "16 + sto \<le> 2 ^ 63 - 1"
    and buf: "buf = header_bytes u sto @ concat (map encode_app recs) @ pack_int32 0 @ trailer"
  shows "\<exists>st. read_appinfo lim buf = Some (Inr st)
           \<and> fst ` set st = appid ` set recs
           \<and> distinct (map fst st)
           \<and> (\<forall>pre r post. recs = pre @ r # post \<and> appid r \<notin> appid ` set post \<longrightarrow>
                 (\<exists>a. extract_fields r = Some (Inr a) \<and> map_of st (appid r) = Some a))"
proof -
  let ?f = "\<lparr>content = buf, pos = 16\<rparr>"
  let ?n = "length (concat (map encode_app recs))"
  note h = read_header_layout [OF u sto tab off buf]
  have lay: "drop (pos ?f) (content ?f) = concat (map encode_app recs) @ (pack_int32 0 @ trailer)"
    using h(2) by simp
  have "drop ?n (drop 16 buf) = pack_int32 0 @ trailer"
    by (simp add: h(2))
  then have lay': "drop (pos (?f\<lparr>pos := pos ?f + ?n\<rparr>)) (content (?f\<lparr>pos := pos ?f + ?n\<rparr>))
      = pack_int32 0 @ trailer"
    by (simp add: add.commute)
  have run: "read_appinfo lim buf = Some (Inr (store_of recs []))"
    by (simp only: read_appinfo_def h(1) sum.case prod.case
        read_games_records [OF recs lay] read_games_sentinel [OF lay'])
  have last: "\<exists>a. extract_fields r = Some (Inr a) \<and> map_of (store_of recs []) (appid r) = Some a"
    if "recs = pre @ r # post" and "appid r \<notin> appid ` set post" for pre r post
  proof -
    have "r \<in> set recs" using that(1) by simp
    with recs have "fields_ok (binary_content r)" by blast
    from decoded_ok [OF this] store_of_last [OF that] show ?thesis by blast
  qed
  show ?thesis
    using run store_of_keys [of recs "[]"] store_of_distinct [of "[]" recs] last
    by (intro exI [of _ "store_of recs []"]) auto
qed

lemma tf2_buf_layout:
  "tf2_buf [0, 0, 0, 0, 0, 0, 0, 0]
     = header_bytes 1 0 @ concat (map encode_app [tf2_record]) @ pack_int32 0 @ []"
  by (simp add: tf2_buf_def header_bytes_def encode_app_def tf2_record_def pack_int32_bytes
      pack_int64_bytes name_marker_def bytes_lit_def)

lemma tf2_record_raw: "raw_record tf2_record"
  by (simp add: raw_record_def tf2_record_def name_marker_def bytes_lit_def)

lemma tf2_record_fields_ok: "fields_ok (binary_content tf2_record)"
  by (simp add: fields_ok_def tf2_record_def name_marker_def type_marker_def icon_marker_def
      bytes_lit_def bytes_in_def zero_terminated_def marker_value_def)

theorem read_appinfo_well_formed_witness:
  "raw_record tf2_record \<and> fields_ok (binary_content tf2_record)
   \<and> 16 + 0 + 4 \<le> length (tf2_buf [0, 0, 0, 0, 0, 0, 0, 0])
   \<and> (\<exists>st. read_appinfo example_max_offset (tf2_buf [0, 0, 0, 0, 0, 0, 0, 0]) = Some (Inr st)
          \<and> fst ` set st = {440})"
proof -
  have r: "\<forall>r \<in> set [tf2_record]. raw_record r \<and> fields_ok (binary_content r)"
    by (simp add: tf2_record_raw tf2_record_fields_ok)
  have l: "16 + 0 + 4 \<le> length (tf2_buf [0, 0, 0, 0, 0, 0, 0, 0])"
    by (simp add: tf2_buf_def magic_bytes_def)
  have "appid ` set [tf2_record] = {440}"
    by (simp add: tf2_record_def)
  with read_appinfo_well_formed [OF r _ _ l _ tf2_buf_layout, where lim = example_max_offset] r l
  show ?thesis by auto
qed

text \<open>Claim C1 as stated fails: the scenario buffer is well formed in the claim's sense
  for every string table offset, but with the offset 1000 the decoder reads the string
  count past the end of the buffer and raises \<^verbatim>\<open>struct.error\<close>.\<close>

theorem read_appinfo_well_formed_counterexample:
  "read_appinfo example_max_offset (tf2_buf [0xE8, 3, 0, 0, 0, 0, 0, 0]) = Some (Inl StructError)"
  by (simp add: read_appinfo_def read_header_eq example_max_offset_value tf2_buf_def magic_bytes_def py_slice_def
      name_marker_def bytes_lit_def)

text \<open>The end-to-end scenario, evaluated: with the string table offset 0 the decode
  returns the store with the one record, its name set and the other two fields absent.\<close>

lemma end_to_end_scenario:
  "read_appinfo example_max_offset (tf2_buf [0, 0, 0, 0, 0, 0, 0, 0])
     = Some (Inr [(440, tf2_record\<lparr>name := Some (str_lit ''Team Fortress 2'')\<rparr>)])"
proof -
  let ?b = "tf2_buf [0, 0, 0, 0, 0, 0, 0, 0]"
  let ?f16 = "\<lparr>content = ?b, pos = 16\<rparr>"
  let ?f20 = "\<lparr>content = ?b, pos = 20\<rparr>"
  let ?f105 = "\<lparr>content = ?b, pos = 105\<rparr>"
  have h: "read_header example_max_offset \<lparr>content = ?b, pos = 0\<rparr>
      = Inr (\<lparr>universe = 1, string_table_offset = 0, string_count = 440\<rparr>, ?f16)"
    by (simp add: read_header_eq tf2_buf_def magic_bytes_def py_slice_def name_marker_def
        bytes_lit_def)
  have a: "read_int32 ?f16 = Inr (440, ?f20)"
    by (simp add: read_int32_eq tf2_buf_def magic_bytes_def py_slice_def)
  have r: "read_app 440 ?f20 = Inr (tf2_record, ?f105)"
    by (simp add: read_app_def read_int32_eq read_int64_eq f_read_def f_read_int_def
        f_tell_def Let_def py_slice_def tf2_record_def tf2_buf_def magic_bytes_def
        name_marker_def bytes_lit_def)
  have e: "extract_fields tf2_record
      = Some (Inr (tf2_record\<lparr>name := Some (str_lit ''Team Fortress 2'')\<rparr>))"
    by (simp add: extract_fields_def extract_name_eq extract_obj_type_eq extract_icon_def
        bytes_in_def zero_terminated_def marker_value_def bytes_decode_def tf2_record_def
        name_marker_def type_marker_def icon_marker_def bytes_lit_def str_lit_def)
  have s: "read_games ?f105 d = Some (Inr d)" for d
    by (subst read_games.simps)
       (simp add: read_int32_eq tf2_buf_def magic_bytes_def py_slice_def name_marker_def
         bytes_lit_def)
  have "read_games ?f16 [] =
      Some (Inr [(440, tf2_record\<lparr>name := Some (str_lit ''Team Fortress 2'')\<rparr>)])"
    by (subst read_games.simps) (simp add: a r e s)
  then show ?thesis
    by (simp add: read_appinfo_def h)
qed

section \<open>The header phase\<close>

lemma read_appinfo_magic:
  "read_appinfo lim buf = Some (Inl SyntaxError) \<longleftrightarrow> take 4 buf \<noteq> magic_bytes"
proof (cases "take 4 buf = magic_bytes")
  case False
  then show ?thesis
    by (simp add: read_appinfo_def read_header_eq)
next
  case True
  have "read_appinfo lim buf \<noteq> Some (Inl SyntaxError)"
  proof (cases "read_header lim \<lparr>content = buf, pos = 0\<rparr>")
    case (Inl e)
    with True have "e \<noteq> SyntaxError"
      by (auto simp: read_header_eq split: if_splits)
    with Inl show ?thesis
      by (simp add: read_appinfo_def)
  next
    case (Inr p)
    then show ?thesis
      using read_games_error [of "snd p" "[]" SyntaxError]
      by (cases p) (auto simp: read_appinfo_def)
  qed
  with True show ?thesis by simp
qed

text \<open>
  Claim C4. A buffer whose first four bytes are not the magic \<^verbatim>\<open>b")DV\x07"\<close> (a buffer
  shorter than four bytes included) makes \<^verbatim>\<open>read_appinfo\<close> raise \<^verbatim>\<open>SyntaxError\<close>, so no
  store is returned; a buffer that starts with the magic never raises it.
\<close>

theorem magic_mismatch_is_fatal:
  "(take 4 buf \<noteq> magic_bytes \<longrightarrow> read_appinfo lim buf = Some (Inl SyntaxError))
   \<and> (take 4 buf = magic_bytes \<longrightarrow> read_appinfo lim buf \<noteq> Some (Inl SyntaxError))"
  using read_appinfo_magic [of lim buf] by blast

theorem magic_mismatch_is_fatal_witness:
  "take 4 [0x29, 0x44, 0x56, 0x08, 0, 0, 0, 0] \<noteq> magic_bytes
   \<and> read_appinfo example_max_offset [0x29, 0x44, 0x56, 0x08, 0, 0, 0, 0] = Some (Inl SyntaxError)
   \<and> take 4 [0x29, 0x44, 0x56, 0x07, 0, 0] = magic_bytes
   \<and> read_appinfo example_max_offset [0x29, 0x44, 0x56, 0x07, 0, 0] \<noteq> Some (Inl SyntaxError)"
proof -
  have a: "take 4 [0x29, 0x44, 0x56, 0x08, 0, 0, 0, 0] \<noteq> magic_bytes"
    by (simp add: magic_bytes_def)
  have b: "take 4 [0x29, 0x44, 0x56, 0x07, 0, 0] = magic_bytes"
    by (simp add: magic_bytes_def)
  from magic_mismatch_is_fatal [of "[0x29, 0x44, 0x56, 0x08, 0, 0, 0, 0]" example_max_offset]
    magic_mismatch_is_fatal [of "[0x29, 0x44, 0x56, 0x07, 0, 0]" example_max_offset] a b
  show ?thesis by blast
qed




section \<open>Resynchronisation and the fixed fields\<close>

lemma extract_fields_no_markers:
  assumes "\<not> bytes_in name_marker (binary_content a)"
    and "\<not> bytes_in type_marker (binary_content a)"
    and "\<not> bytes_in icon_marker (binary_content a)"
  shows "extract_fields a = Some (Inr a)"
  using assms
  by (simp add: extract_fields_def extract_name_eq extract_obj_type_eq extract_icon_def)

text \<open>
  Claim C6, as amended. Take a record whose appid and declared size are read, whose
  declared size is at least the 60 bytes of the fixed fields and which lies inside the
  buffer. Whatever its payload holds, reading it leaves the cursor at \<open>end\<close>, the
  position after the declared size plus the declared size; when the field extraction
  returns, the loop goes on from there, and it returns the record unchanged when the
  payload holds none of the three markers.
\<close>

theorem record_resynchronisation:
  assumes aid: "read_int32 f = Inr (aid, f1)" and nz: "aid \<noteq> 0"
    and sz: "read_int32 f1 = Inr (sz, f2)" and big: "60 \<le> sz"
    and fits: "pos f2 + sz \<le> length (content f)"
  shows "\<exists>a. read_app aid f1 = Inr (a, f\<lparr>pos := pos f2 + sz\<rparr>)
           \<and> (\<forall>a'. extract_fields a = Some (Inr a') \<longrightarrow>
                  read_games f d
                    = read_games (f\<lparr>pos := pos f2 + sz\<rparr>) (AList.update aid a' d))
           \<and> (\<not> bytes_in name_marker (binary_content a)
                \<and> \<not> bytes_in type_marker (binary_content a)
                \<and> \<not> bytes_in icon_marker (binary_content a) \<longrightarrow>
                  extract_fields a = Some (Inr a))"
proof -
  have f1: "f1 = f\<lparr>pos := pos f + 4\<rparr>"
    using aid by (simp add: read_int32_eq split: if_splits)
  have f2: "pos f2 = pos f1 + 4" "content f2 = content f1"
    and s: "sz = le_nat (py_slice (content f1) (pos f1) (pos f1 + 4))"
    using sz by (auto simp: read_int32_eq split: if_splits)
  have fits': "pos f1 + 4 + sz \<le> length (content f1)"
    using fits f1 f2 by simp
  from read_app_fields [OF s big fits', of aid]
  obtain a where a: "read_app aid f1 = Inr (a, f1\<lparr>pos := pos f1 + 4 + sz\<rparr>)"
    by blast
  have e: "f1\<lparr>pos := pos f1 + 4 + sz\<rparr> = f\<lparr>pos := pos f2 + sz\<rparr>"
    using f1 f2 by simp
  have step: "read_games f d = read_games (f\<lparr>pos := pos f2 + sz\<rparr>) (AList.update aid a' d)"
    if "extract_fields a = Some (Inr a')" for a'
    using nz by (subst read_games.simps) (simp add: aid a e that)
  show ?thesis
    using a e step extract_fields_no_markers [of a] by auto
qed

theorem record_resynchronisation_witness:
  "read_app 7 \<lparr>content = [7, 0, 0, 0] @ [63, 0, 0, 0] @ replicate 60 0 @ [1, 5, 0]
                   @ [0, 0, 0, 0], pos = 4\<rparr>
     = Inr (blank_app 7 [1, 5, 0],
            \<lparr>content = [7, 0, 0, 0] @ [63, 0, 0, 0] @ replicate 60 0 @ [1, 5, 0]
                   @ [0, 0, 0, 0], pos = 71\<rparr>)
   \<and> read_games \<lparr>content = [7, 0, 0, 0] @ [63, 0, 0, 0] @ replicate 60 0 @ [1, 5, 0]
                   @ [0, 0, 0, 0], pos = 0\<rparr> []
     = Some (Inr [(7, blank_app 7 [1, 5, 0])])"
proof -
  let ?c = "[7, 0, 0, 0] @ [63, 0, 0, 0] @ replicate 60 0 @ [1, 5, 0] @ [0, 0, 0, 0] :: byte list"
  let ?f = "\<lparr>content = ?c, pos = 0\<rparr>"
  have a: "read_int32 ?f = Inr (7, ?f\<lparr>pos := 4\<rparr>)"
    by (simp add: read_int32_eq py_slice_def)
  have b: "read_int32 (?f\<lparr>pos := 4\<rparr>) = Inr (63, ?f\<lparr>pos := 8\<rparr>)"
    by (simp add: read_int32_eq py_slice_def)
  have c: "pos (?f\<lparr>pos := 8\<rparr>) + 63 \<le> length (content ?f)"
    by simp
  have s: "read_games (?f\<lparr>pos := 71\<rparr>) d = Some (Inr d)" for d
    by (subst read_games.simps) (simp add: read_int32_eq py_slice_def)
  have x: "read_app 7 (?f\<lparr>pos := 4\<rparr>) = Inr (blank_app 7 [1, 5, 0], ?f\<lparr>pos := 71\<rparr>)"
    by (simp add: read_app_def read_int32_eq read_int64_eq f_read_def f_read_int_def
        f_tell_def Let_def py_slice_def blank_app_def)
  from record_resynchronisation [OF a _ b _ c, of "[]"] x
  have r: "\<forall>a'. extract_fields (blank_app 7 [1, 5, 0]) = Some (Inr a') \<longrightarrow>
              read_games ?f [] = read_games (?f\<lparr>pos := 71\<rparr>) (AList.update 7 a' [])"
    and n: "\<not> bytes_in name_marker (binary_content (blank_app 7 [1, 5, 0]))
            \<and> \<not> bytes_in type_marker (binary_content (blank_app 7 [1, 5, 0]))
            \<and> \<not> bytes_in icon_marker (binary_content (blank_app 7 [1, 5, 0])) \<longrightarrow>
              extract_fields (blank_app 7 [1, 5, 0]) = Some (Inr (blank_app 7 [1, 5, 0]))"
    by auto
  have "extract_fields (blank_app 7 [1, 5, 0]) = Some (Inr (blank_app 7 [1, 5, 0]))"
    using n
    by (simp add: blank_app_def bytes_in_def name_marker_def type_marker_def icon_marker_def)
  with r s x show ?thesis by simp
qed

text \<open>Claim C6 as stated fails for a record that declares 59 bytes: after the declared
  size, read at position 4, \<open>end\<close> is \<open>8 + 59 = 67\<close>; the fixed fields take the cursor to
  68, the payload is read with the length \<open>-1\<close>, which reads to the end of the file, and
  the cursor is left at 73, with the five bytes after the fixed fields as payload.\<close>

theorem record_resynchronisation_counterexample:
  "read_int32 \<lparr>content = [7, 0, 0, 0] @ [59, 0, 0, 0] @ replicate 60 0 @ [1, 2, 3, 4, 5],
               pos = 4\<rparr>
     = Inr (59, \<lparr>content = [7, 0, 0, 0] @ [59, 0, 0, 0] @ replicate 60 0 @ [1, 2, 3, 4, 5],
                 pos = 8\<rparr>)
   \<and> read_app 7 \<lparr>content = [7, 0, 0, 0] @ [59, 0, 0, 0] @ replicate 60 0 @ [1, 2, 3, 4, 5],
                  pos = 4\<rparr>
     = Inr (blank_app 7 [1, 2, 3, 4, 5],
            \<lparr>content = [7, 0, 0, 0] @ [59, 0, 0, 0] @ replicate 60 0 @ [1, 2, 3, 4, 5],
             pos = 73\<rparr>)
   \<and> (73 :: nat) \<noteq> 8 + 59"
  by (simp add: read_app_def read_int32_eq read_int64_eq f_read_def f_read_int_def
      f_tell_def Let_def py_slice_def blank_app_def)

text \<open>
  Claim C8, as amended. After the declared size, at position \<open>q\<close>, the fixed fields are
  read in the order infoState (4 bytes), lastUpdated (4), token (8), digest (20),
  changeNumber (4), digest (20): 60 bytes. For a record that lies inside the buffer and
  whose declared size is at least 60, the payload is the bytes from \<open>q + 60\<close> to
  \<open>q + declaredSize\<close>, so it is declaredSize minus 60 bytes long.
\<close>

theorem fixed_fields_take_60_bytes:
  assumes sz: "read_int32 f1 = Inr (sz, f2)" and big: "60 \<le> sz"
    and fits: "pos f2 + sz \<le> length (content f1)"
  shows "\<exists>a. read_app aid f1 = Inr (a, f1\<lparr>pos := pos f2 + sz\<rparr>)
     \<and> info_state a = le_nat (py_slice (content f1) (pos f2) (pos f2 + 4))
     \<and> last_updated a = le_nat (py_slice (content f1) (pos f2 + 4) (pos f2 + 8))
     \<and> picsToken a = le_nat (py_slice (content f1) (pos f2 + 8) (pos f2 + 16))
     \<and> sha1Text a = py_slice (content f1) (pos f2 + 16) (pos f2 + 36)
     \<and> change_number a = le_nat (py_slice (content f1) (pos f2 + 36) (pos f2 + 40))
     \<and> sha1Binary a = py_slice (content f1) (pos f2 + 40) (pos f2 + 60)
     \<and> binary_content a = py_slice (content f1) (pos f2 + 60) (pos f2 + sz)
     \<and> length (binary_content a) = sz - 60"
proof -
  have f2: "pos f2 = pos f1 + 4"
    and s: "sz = le_nat (py_slice (content f1) (pos f1) (pos f1 + 4))"
    using sz by (auto simp: read_int32_eq split: if_splits)
  have fits': "pos f1 + 4 + sz \<le> length (content f1)"
    using fits f2 by simp
  have len: "length (py_slice (content f1) (pos f1 + 64) (pos f1 + 4 + sz)) = sz - 60"
    using fits' big by (simp add: py_slice_def)
  from read_app_fields [OF s big fits', of aid] len
  show ?thesis
    by (auto simp: f2 add.assoc)
qed

theorem fixed_fields_take_60_bytes_witness:
  "read_int32 \<lparr>content = [64, 0, 0, 0] @ replicate 60 0 @ [1, 2, 3, 4], pos = 0\<rparr>
     = Inr (64, \<lparr>content = [64, 0, 0, 0] @ replicate 60 0 @ [1, 2, 3, 4], pos = 4\<rparr>)
   \<and> (\<exists>a. read_app 7 \<lparr>content = [64, 0, 0, 0] @ replicate 60 0 @ [1, 2, 3, 4], pos = 0\<rparr>
            = Inr (a, \<lparr>content = [64, 0, 0, 0] @ replicate 60 0 @ [1, 2, 3, 4], pos = 68\<rparr>)
          \<and> length (binary_content a) = 4)"
proof -
  let ?f = "\<lparr>content = [64, 0, 0, 0] @ replicate 60 0 @ [1, 2, 3, 4] :: byte list, pos = 0\<rparr>"
  have a: "read_int32 ?f = Inr (64, ?f\<lparr>pos := 4\<rparr>)"
    by (simp add: read_int32_eq py_slice_def)
  have b: "(60::nat) \<le> 64" by simp
  have c: "pos (?f\<lparr>pos := 4\<rparr>) + 64 \<le> length (content ?f)"
    by simp
  from fixed_fields_take_60_bytes [OF a b c, of 7] a show ?thesis
    by auto
qed

text \<open>Claim C8 as stated fails: a record that declares 64 bytes has, after its fixed
  fields, a payload of 4 bytes, not of \<open>64 - 64 = 0\<close>.\<close>

theorem fixed_fields_take_60_bytes_counterexample:
  "read_app 7 \<lparr>content = [64, 0, 0, 0] @ replicate 60 0 @ [1, 2, 3, 4], pos = 0\<rparr>
     = Inr (blank_app 7 [1, 2, 3, 4],
            \<lparr>content = [64, 0, 0, 0] @ replicate 60 0 @ [1, 2, 3, 4], pos = 68\<rparr>)
   \<and> length (binary_content (blank_app 7 [1, 2, 3, 4])) \<noteq> 64 - 64"
  by (simp add: read_app_def read_int32_eq read_int64_eq f_read_def f_read_int_def
      f_tell_def Let_def py_slice_def blank_app_def)

section \<open>The item type and the icon hash\<close>

text \<open>
  Claim C7, as amended. When the payload holds the type marker and a zero byte follows
  its first occurrence, \<^verbatim>\<open>type\<close> is set exactly when the bytes between the marker and
  that zero byte are one of the eight tags of the source, \<^verbatim>\<open>Game\<close>, \<^verbatim>\<open>DLC\<close>, \<^verbatim>\<open>Demo\<close>,
  \<^verbatim>\<open>Config\<close>, \<^verbatim>\<open>Beta\<close>, \<^verbatim>\<open>Tool\<close>, \<^verbatim>\<open>ownersonly\<close> (in lower case) and \<^verbatim>\<open>Application\<close>;
  it is then the tag as text. Any other value leaves \<^verbatim>\<open>type\<close> as it was, and no
  exception is raised either way.
\<close>

theorem item_type_closed_set:
  assumes "zero_terminated type_marker (binary_content a)"
  shows "type_tags = map bytes_lit [''Game'', ''DLC'', ''Demo'', ''Config'', ''Beta'', ''Tool'',
                        ''ownersonly'', ''Application'']
     \<and> extract_obj_type a =
         Some (Inr (if marker_value type_marker (binary_content a) \<in> set type_tags
                    then a\<lparr>type := Some (map unat (marker_value type_marker (binary_content a)))\<rparr>
                    else a))"
  using assms
  by (simp add: extract_obj_type_eq zero_terminated_def bytes_decode_tag type_tags_def)

theorem item_type_closed_set_witness:
  "zero_terminated type_marker (binary_content (blank_app 440 (type_marker @ bytes_lit ''Game'' @ [0])))
   \<and> extract_obj_type (blank_app 440 (type_marker @ bytes_lit ''Game'' @ [0]))
       = Some (Inr ((blank_app 440 (type_marker @ bytes_lit ''Game'' @ [0]))
                      \<lparr>type := Some (str_lit ''Game'')\<rparr>))
   \<and> zero_terminated type_marker
         (binary_content (blank_app 440 (type_marker @ bytes_lit ''Unknown'' @ [0])))
   \<and> extract_obj_type (blank_app 440 (type_marker @ bytes_lit ''Unknown'' @ [0]))
       = Some (Inr (blank_app 440 (type_marker @ bytes_lit ''Unknown'' @ [0])))"
proof -
  let ?g = "blank_app 440 (type_marker @ bytes_lit ''Game'' @ [0])"
  let ?u = "blank_app 440 (type_marker @ bytes_lit ''Unknown'' @ [0])"
  have zg: "zero_terminated type_marker (binary_content ?g)"
    by (simp add: zero_terminated_def blank_app_def type_marker_def bytes_lit_def bytes_in_def)
  have vg: "marker_value type_marker (binary_content ?g) = bytes_lit ''Game''"
    by (simp add: marker_value_def blank_app_def type_marker_def bytes_lit_def)
  have zu: "zero_terminated type_marker (binary_content ?u)"
    by (simp add: zero_terminated_def blank_app_def type_marker_def bytes_lit_def bytes_in_def)
  have vu: "marker_value type_marker (binary_content ?u) = bytes_lit ''Unknown''"
    by (simp add: marker_value_def blank_app_def type_marker_def bytes_lit_def)
  have tg: "bytes_lit ''Game'' \<in> set type_tags"
    by (simp add: type_tags_def)
  have tu: "bytes_lit ''Unknown'' \<notin> set type_tags"
    by (simp add: type_tags_def bytes_lit_def)
  have sg: "map unat (bytes_lit ''Game'') = str_lit ''Game''"
    by (simp add: bytes_lit_def str_lit_def)
  from item_type_closed_set [OF zg] item_type_closed_set [OF zu] zg zu
  show ?thesis
    by (simp add: vg vu tg tu sg)
qed

text \<open>Claim C7 as stated fails on the tag \<^verbatim>\<open>OwnersOnly\<close>: the source compares with
  \<^verbatim>\<open>b"ownersonly"\<close>, so the capitalised value leaves \<^verbatim>\<open>type\<close> absent and the lower-case
  one sets it.\<close>

theorem item_type_closed_set_counterexample:
  "extract_obj_type (blank_app 440 (type_marker @ bytes_lit ''OwnersOnly'' @ [0]))
     = Some (Inr (blank_app 440 (type_marker @ bytes_lit ''OwnersOnly'' @ [0])))
   \<and> type (blank_app 440 (type_marker @ bytes_lit ''OwnersOnly'' @ [0])) = None
   \<and> extract_obj_type (blank_app 440 (type_marker @ bytes_lit ''ownersonly'' @ [0]))
     = Some (Inr ((blank_app 440 (type_marker @ bytes_lit ''ownersonly'' @ [0]))
                    \<lparr>type := Some (str_lit ''ownersonly'')\<rparr>))"
proof -
  let ?o = "blank_app 440 (type_marker @ bytes_lit ''OwnersOnly'' @ [0])"
  let ?l = "blank_app 440 (type_marker @ bytes_lit ''ownersonly'' @ [0])"
  have zo: "zero_terminated type_marker (binary_content ?o)"
    by (simp add: zero_terminated_def blank_app_def type_marker_def bytes_lit_def bytes_in_def)
  have vo: "marker_value type_marker (binary_content ?o) = bytes_lit ''OwnersOnly''"
    by (simp add: marker_value_def blank_app_def type_marker_def bytes_lit_def)
  have zl: "zero_terminated type_marker (binary_content ?l)"
    by (simp add: zero_terminated_def blank_app_def type_marker_def bytes_lit_def bytes_in_def)
  have vl: "marker_value type_marker (binary_content ?l) = bytes_lit ''ownersonly''"
    by (simp add: marker_value_def blank_app_def type_marker_def bytes_lit_def)
  have no: "bytes_lit ''OwnersOnly'' \<notin> set type_tags"
    by (simp add: type_tags_def bytes_lit_def)
  have tl: "bytes_lit ''ownersonly'' \<in> set type_tags"
    by (simp add: type_tags_def)
  have sl: "map unat (bytes_lit ''ownersonly'') = str_lit ''ownersonly''"
    by (simp add: bytes_lit_def str_lit_def)
  have t: "type ?o = None"
    by (simp add: blank_app_def)
  have zo': "bytes_in type_marker (binary_content ?o)" and zl': "bytes_in type_marker (binary_content ?l)"
    using zo zl by (simp_all add: zero_terminated_def)
  show ?thesis
    using zo zl zo' zl' t
    by (simp add: extract_obj_type_eq vo vl no tl sl bytes_decode_tag)
qed

lemma bytes_decode_ascii:
  "\<forall>b \<in> set bs. b < 0x80 \<Longrightarrow> bytes_decode bs = Inr (map unat bs)"
  by (simp add: bytes_decode_def utf8_decode_ascii)

text \<open>What the code does with the icon marker: it takes the slice \<^verbatim>\<open>[index: index + 40]\<close>
  after the first occurrence, at index \<open>i\<close>, and decodes it. When 40 bytes follow the
  marker and all are ASCII, the string stored has 40 characters, as the comment on
  source line 100 says of the icon hash.\<close>

lemma extract_icon_slice:
  assumes i: "bytes_index icon_marker (binary_content a) = Some i"
  shows "take 5 (drop i (binary_content a)) = icon_marker"
    and "\<forall>j<i. take 5 (drop j (binary_content a)) \<noteq> icon_marker"
    and "extract_icon a =
         (case bytes_decode (take 40 (drop (i + 5) (binary_content a))) of
            Inl e \<Rightarrow> Inl e
          | Inr s \<Rightarrow> Inr (a\<lparr>icon_hash := Some s\<rparr>))"
    and "i + 45 \<le> length (binary_content a) \<Longrightarrow>
         \<forall>b \<in> set (take 40 (drop (i + 5) (binary_content a))). b < 0x80 \<Longrightarrow>
         extract_icon a =
           Inr (a\<lparr>icon_hash := Some (map unat (take 40 (drop (i + 5) (binary_content a))))\<rparr>)
         \<and> length (map unat (take 40 (drop (i + 5) (binary_content a)))) = 40"
proof -
  let ?bc = "binary_content a"
  have l: "length icon_marker = 5"
    by (simp add: icon_marker_def)
  from bytes_index_Some [OF i]
  show "take 5 (drop i ?bc) = icon_marker" "\<forall>j<i. take 5 (drop j ?bc) \<noteq> icon_marker"
    by (simp_all add: l)
  show ex: "extract_icon a =
         (case bytes_decode (take 40 (drop (i + 5) ?bc)) of
            Inl e \<Rightarrow> Inl e
          | Inr s \<Rightarrow> Inr (a\<lparr>icon_hash := Some s\<rparr>))"
    by (simp add: extract_icon_def bytes_in_def i py_slice_def Let_def)
  show "extract_icon a = Inr (a\<lparr>icon_hash := Some (map unat (take 40 (drop (i + 5) ?bc)))\<rparr>)
         \<and> length (map unat (take 40 (drop (i + 5) ?bc))) = 40"
    if "i + 45 \<le> length ?bc" and "\<forall>b \<in> set (take 40 (drop (i + 5) ?bc)). b < 0x80"
    using that by (simp add: ex bytes_decode_ascii)
qed

lemma extract_icon_example:
  "extract_icon (blank_app 440 ([7] @ icon_marker @ replicate 40 0x61 @ [0x62, 0]))
     = Inr ((blank_app 440 ([7] @ icon_marker @ replicate 40 0x61 @ [0x62, 0]))
              \<lparr>icon_hash := Some (replicate 40 0x61)\<rparr>)"
proof -
  let ?a = "blank_app 440 ([7] @ icon_marker @ replicate 40 0x61 @ [0x62, 0])"
  have i: "bytes_index icon_marker (binary_content ?a) = Some 1"
    by (simp add: blank_app_def icon_marker_def)
  have t: "take 40 (drop (1 + 5) (binary_content ?a)) = replicate 40 0x61"
    by (simp add: blank_app_def icon_marker_def)
  have l: "1 + 45 \<le> length (binary_content ?a)"
    by (simp add: blank_app_def icon_marker_def)
  have asc: "\<forall>b \<in> set (take 40 (drop (1 + 5) (binary_content ?a))). b < 0x80"
    unfolding t by simp
  from extract_icon_slice(4) [OF i l asc]
  have "extract_icon ?a =
      Inr (?a\<lparr>icon_hash := Some (map unat (take 40 (drop (1 + 5) (binary_content ?a))))\<rparr>)"
    by blast
  then show ?thesis
    unfolding t by simp
qed

text \<open>
  Claim C9 at its failing input. The payload of the one record ends three bytes after the
  icon marker. The slice \<^verbatim>\<open>[index: index + 40]\<close> is then those three bytes, no check of
  its length follows, and \<^verbatim>\<open>read_appinfo\<close> returns a store in which the icon hash of
  application 440 is the three-character string \<^verbatim>\<open>abc\<close>, not a string of 40 characters.
\<close>

theorem short_icon_hash_is_stored:
  "read_appinfo lim short_icon_buf =
     Some (Inr [(440, (blank_app 440 (icon_marker @ bytes_lit ''abc''))
                        \<lparr>icon_hash := Some (str_lit ''abc'')\<rparr>)])
   \<and> length (str_lit ''abc'') \<noteq> 40"
proof -
  let ?f = "\<lparr>content = short_icon_buf, pos = 16\<rparr>"
  let ?f20 = "\<lparr>content = short_icon_buf, pos = 20\<rparr>"
  let ?f92 = "\<lparr>content = short_icon_buf, pos = 92\<rparr>"
  let ?a = "blank_app 440 (icon_marker @ bytes_lit ''abc'')"
  have h: "read_header lim \<lparr>content = short_icon_buf, pos = 0\<rparr>
      = Inr (\<lparr>universe = 1, string_table_offset = 0, string_count = 440\<rparr>, ?f)"
    by (simp add: read_header_eq short_icon_buf_def magic_bytes_def py_slice_def
        icon_marker_def bytes_lit_def)
  have a: "read_int32 ?f = Inr (440, ?f20)"
    by (simp add: read_int32_eq short_icon_buf_def magic_bytes_def py_slice_def)
  have r: "read_app 440 ?f20 = Inr (?a, ?f92)"
    by (simp add: read_app_def read_int32_eq read_int64_eq f_read_def f_read_int_def
        f_tell_def Let_def py_slice_def blank_app_def short_icon_buf_def magic_bytes_def
        icon_marker_def bytes_lit_def)
  have e: "extract_fields ?a = Some (Inr (?a\<lparr>icon_hash := Some (str_lit ''abc'')\<rparr>))"
    by (simp add: extract_fields_def extract_name_eq extract_obj_type_eq extract_icon_def
        bytes_in_def bytes_decode_def py_slice_def Let_def blank_app_def name_marker_def
        type_marker_def icon_marker_def bytes_lit_def str_lit_def)
  have s: "read_games ?f92 d = Some (Inr d)" for d
    by (subst read_games.simps)
       (simp add: read_int32_eq short_icon_buf_def magic_bytes_def py_slice_def
         icon_marker_def bytes_lit_def)
  have "read_games ?f [] = Some (Inr [(440, ?a\<lparr>icon_hash := Some (str_lit ''abc'')\<rparr>)])"
    by (subst read_games.simps) (simp add: a r e s)
  then show ?thesis
    by (simp add: read_appinfo_def h str_lit_def)
qed

section \<open>An unterminated marker value\<close>

lemma extract_name_unterminated:
  assumes "bytes_in name_marker (binary_content a)"
    and "0 \<notin> set (drop (the (bytes_index name_marker (binary_content a)) + 5) (binary_content a))"
  shows "extract_name a = None" and "extract_fields a = None"
proof -
  show n: "extract_name a = None"
    using assms by (simp add: extract_name_eq zero_terminated_def)
  show "extract_fields a = None"
    by (simp add: extract_fields_def n)
qed

text \<open>
  Claim C2 at its failing input. The payload of the one record holds the name marker and
  no zero byte after it; \<^verbatim>\<open>read_appinfo\<close> has no result on this buffer, neither a store
  nor an exception: the value scan runs past the end of the payload, where the empty
  slice never equals \<^verbatim>\<open>b"\x00"\<close>.
\<close>

theorem unterminated_name_never_returns: "read_appinfo lim unterminated_buf = None"
proof -
  let ?f = "\<lparr>content = unterminated_buf, pos = 16\<rparr>"
  let ?bc = "name_marker @ bytes_lit ''TF2''"
  have h: "read_header lim \<lparr>content = unterminated_buf, pos = 0\<rparr>
      = Inr (\<lparr>universe = 1, string_table_offset = 0, string_count = 440\<rparr>, ?f)"
    by (simp add: read_header_eq unterminated_buf_def magic_bytes_def py_slice_def
        name_marker_def bytes_lit_def)
  let ?f20 = "\<lparr>content = unterminated_buf, pos = 20\<rparr>"
  let ?f92 = "\<lparr>content = unterminated_buf, pos = 92\<rparr>"
  have a: "read_int32 ?f = Inr (440, ?f20)"
    by (simp add: read_int32_eq unterminated_buf_def magic_bytes_def py_slice_def)
  have r: "read_app 440 ?f20 = Inr (blank_app 440 ?bc, ?f92)"
    by (simp add: read_app_def read_int32_eq read_int64_eq f_read_def f_read_int_def
        f_tell_def Let_def py_slice_def blank_app_def unterminated_buf_def magic_bytes_def
        name_marker_def bytes_lit_def)
  have i: "bytes_in name_marker (binary_content (blank_app 440 ?bc))"
    by (simp add: bytes_in_def blank_app_def name_marker_def)
  have z: "0 \<notin> set (drop (the (bytes_index name_marker (binary_content (blank_app 440 ?bc))) + 5)
                      (binary_content (blank_app 440 ?bc)))"
    by (simp add: blank_app_def name_marker_def bytes_lit_def)
  have "read_games ?f [] = None"
    by (subst read_games.simps) (simp add: a r extract_name_unterminated(2) [OF i z])
  then show ?thesis
    by (simp add: read_appinfo_def h)
qed

section \<open>A record cut off by the end of the buffer\<close>

lemma read_app_cut:
  assumes "length (content f) < pos f + 44"
  shows "read_app aid f = Inl StructError"
  using assms
  by (auto simp: read_app_def read_int32_eq read_int64_eq f_read_def f_tell_def Let_def
      min_def)

text \<open>The declared size reaches past the end of the buffer while the integer fields are
  all present: the short reads of the digest and of the payload do not raise, the
  payload is what is left of the buffer and the cursor ends at the end of the file.\<close>

lemma read_app_truncated:
  assumes rd: "pos f + 44 \<le> length (content f)"
    and sz: "sz = le_nat (py_slice (content f) (pos f) (pos f + 4))"
    and tr: "length (content f) < pos f + 4 + sz"
  shows "\<exists>a. read_app aid f = Inr (a, f\<lparr>pos := length (content f)\<rparr>)
           \<and> binary_content a = drop (pos f + 64) (content f)"
proof -
  let ?c = "content f" and ?p = "pos f"
  let ?q = "min (?p + 64) (length ?c)"
  have r1: "read_int32 f = Inr (sz, f\<lparr>pos := ?p + 4\<rparr>)"
    using rd by (simp add: read_int32_eq sz)
  have r2: "read_int32 (f\<lparr>pos := ?p + 4\<rparr>)
      = Inr (le_nat (py_slice ?c (?p + 4) (?p + 8)), f\<lparr>pos := ?p + 8\<rparr>)"
    using rd by (simp add: read_int32_eq add.commute)
  have r3: "read_int32 (f\<lparr>pos := ?p + 8\<rparr>)
      = Inr (le_nat (py_slice ?c (?p + 8) (?p + 12)), f\<lparr>pos := ?p + 12\<rparr>)"
    using rd by (simp add: read_int32_eq add.commute)
  have r4: "read_int64 (f\<lparr>pos := ?p + 12\<rparr>)
      = Inr (le_nat (py_slice ?c (?p + 12) (?p + 20)), f\<lparr>pos := ?p + 20\<rparr>)"
    using rd by (simp add: read_int64_eq add.commute)
  have r5: "f_read 20 (f\<lparr>pos := ?p + 20\<rparr>)
      = (py_slice ?c (?p + 20) (?p + 40), f\<lparr>pos := ?p + 40\<rparr>)"
    using rd by (simp add: f_read_fits add.commute)
  have r6: "read_int32 (f\<lparr>pos := ?p + 40\<rparr>)
      = Inr (le_nat (py_slice ?c (?p + 40) (?p + 44)), f\<lparr>pos := ?p + 44\<rparr>)"
    using rd by (simp add: read_int32_eq add.commute)
  have r7: "f_read 20 (f\<lparr>pos := ?p + 44\<rparr>)
      = (take 20 (drop (?p + 44) ?c), f\<lparr>pos := ?q\<rparr>)"
    using rd by (auto simp: f_read_def Let_def min_def)
  have n: "0 \<le> int (?p + 4 + sz) - int ?q"
    and k: "length ?c - ?q \<le> nat (int (?p + 4 + sz) - int ?q)"
    using tr by (auto simp: min_def)
  have d: "drop ?q ?c = drop (?p + 64) ?c"
    by (simp add: min_def)
  have r8: "f_read_int (int (?p + 4 + sz) - int ?q) (f\<lparr>pos := ?q\<rparr>)
      = Inr (drop (?p + 64) ?c, f\<lparr>pos := length ?c\<rparr>)"
  proof -
    have "f_read (nat (int (?p + 4 + sz) - int ?q)) (f\<lparr>pos := ?q\<rparr>)
        = (drop ?q ?c, f\<lparr>pos := ?q + length (drop ?q ?c)\<rparr>)"
      using k by (simp add: f_read_def Let_def del: of_nat_add of_nat_diff)
    moreover have "?q + length (drop ?q ?c) = length ?c"
      by (simp add: min_def)
    ultimately show ?thesis
      using n by (simp add: f_read_int_def d del: of_nat_add of_nat_diff)
  qed
  show ?thesis
    by (simp add: read_app_def r1 r2 r3 r4 r5 r6 r7 r8 f_tell_def
        del: of_nat_add of_nat_diff)
qed

text \<open>The buffer ends in or before the second digest, all the integer fields being
  present: the short read of the digest does not raise and leaves the cursor at the end
  of the file, so the length \<^verbatim>\<open>end - f.tell()\<close> of the payload read is
  \<open>end\<close> minus the file size. Below \<open>-1\<close> it raises \<^verbatim>\<open>ValueError\<close>; otherwise the payload
  is empty.\<close>

lemma read_app_cut_digest:
  assumes rd: "pos f + 44 \<le> length (content f)"
    and sz: "sz = le_nat (py_slice (content f) (pos f) (pos f + 4))"
    and short: "length (content f) < pos f + 64"
  shows "(pos f + sz + 5 < length (content f) \<longrightarrow> read_app aid f = Inl ValueError)
       \<and> (length (content f) \<le> pos f + sz + 5 \<longrightarrow>
            (\<exists>a. read_app aid f = Inr (a, f\<lparr>pos := length (content f)\<rparr>)
                 \<and> binary_content a = []))"
proof -
  let ?c = "content f" and ?p = "pos f"
  let ?e = "f\<lparr>pos := length ?c\<rparr>"
  have r1: "read_int32 f = Inr (sz, f\<lparr>pos := ?p + 4\<rparr>)"
    using rd by (simp add: read_int32_eq sz)
  have r2: "read_int32 (f\<lparr>pos := ?p + 4\<rparr>)
      = Inr (le_nat (py_slice ?c (?p + 4) (?p + 8)), f\<lparr>pos := ?p + 8\<rparr>)"
    using rd by (simp add: read_int32_eq add.commute)
  have r3: "read_int32 (f\<lparr>pos := ?p + 8\<rparr>)
      = Inr (le_nat (py_slice ?c (?p + 8) (?p + 12)), f\<lparr>pos := ?p + 12\<rparr>)"
    using rd by (simp add: read_int32_eq add.commute)
  have r4: "read_int64 (f\<lparr>pos := ?p + 12\<rparr>)
      = Inr (le_nat (py_slice ?c (?p + 12) (?p + 20)), f\<lparr>pos := ?p + 20\<rparr>)"
    using rd by (simp add: read_int64_eq add.commute)
  have r5: "f_read 20 (f\<lparr>pos := ?p + 20\<rparr>)
      = (py_slice ?c (?p + 20) (?p + 40), f\<lparr>pos := ?p + 40\<rparr>)"
    using rd by (simp add: f_read_fits add.commute)
  have r6: "read_int32 (f\<lparr>pos := ?p + 40\<rparr>)
      = Inr (le_nat (py_slice ?c (?p + 40) (?p + 44)), f\<lparr>pos := ?p + 44\<rparr>)"
    using rd by (simp add: read_int32_eq add.commute)
  have r7: "f_read 20 (f\<lparr>pos := ?p + 44\<rparr>) = (take 20 (drop (?p + 44) ?c), ?e)"
    using rd short by (auto simp: f_read_def Let_def min_def)
  have rest: "f_read n ?e = ([], ?e)" for n
    by (simp add: f_read_def Let_def)
  have r8: "f_read_int (int (?p + 4 + sz) - int (length ?c)) ?e =
      (if ?p + sz + 5 < length ?c then Inl ValueError else Inr ([], ?e))"
    by (auto simp: f_read_int_def rest simp del: of_nat_add of_nat_diff)
  show ?thesis
    by (simp add: read_app_def r1 r2 r3 r4 r5 r6 r7 r8 f_tell_def
        del: of_nat_add of_nat_diff)
qed

lemma read_games_eof:
  "length (content f) < pos f + 4 \<Longrightarrow> read_games f d = Some (Inl StructError)"
  by (subst read_games.simps) (simp add: read_int32_eq)

lemma fields_ok_Nil: "fields_ok []"
  by (simp add: fields_ok_def bytes_in_def name_marker_def type_marker_def icon_marker_def)

lemma read_games_truncated:
  assumes tl: "drop (pos f) (content f) = tail" and tr: "truncated tail"
  shows "read_games f d = None \<or> (\<exists>e. read_games f d = Some (Inl e))"
    and "fields_ok (drop 68 tail) \<Longrightarrow>
           read_games f d =
             Some (Inl (if 48 \<le> length tail \<and> length tail < 68
                           \<and> le_nat (py_slice tail 4 8) + 9 < length tail
                        then ValueError else StructError))"
proof -
  let ?c = "content f" and ?p = "pos f"
  let ?err = "if 48 \<le> length tail \<and> length tail < 68
                 \<and> le_nat (py_slice tail 4 8) + 9 < length tail
              then ValueError else StructError"
  have len: "length tail = length ?c - ?p"
    using tl by auto
  have both: "(read_games f d = None \<or> (\<exists>e. read_games f d = Some (Inl e)))
      \<and> (fields_ok (drop 68 tail) \<longrightarrow> read_games f d = Some (Inl ?err))"
  proof (cases "length tail < 4")
    case True
    with len have "length ?c < ?p + 4" by simp
    from read_games_eof [OF this] True show ?thesis by simp
  next
    case False
    with len have rd: "?p + 4 \<le> length ?c" by simp
    let ?aid = "le_nat (py_slice ?c ?p (?p + 4))"
    let ?f1 = "f\<lparr>pos := ?p + 4\<rparr>"
    have aid: "?aid = le_nat (take 4 tail)"
      by (simp add: py_slice_def tl)
    with tr False have nz: "?aid \<noteq> 0"
      and t2: "length tail < 68 \<or> length tail < 8 + le_nat (py_slice tail 4 8)"
      by (simp_all add: truncated_def)
    have i: "read_int32 f = Inr (?aid, ?f1)"
      using rd by (simp add: read_int32_eq)
    have s: "le_nat (py_slice tail 4 8) = le_nat (py_slice (content ?f1) (pos ?f1) (pos ?f1 + 4))"
      using py_slice_shift [of ?c ?p 4 8] by (simp add: tl add.commute)
    have eof: "read_games (f\<lparr>pos := length ?c\<rparr>) d' = Some (Inl StructError)" for d'
      by (rule read_games_eof) simp
    consider (ints) "length tail < 48" | (digest) "48 \<le> length tail" "length tail < 68"
      | (payload) "68 \<le> length tail"
      by linarith
    then show ?thesis
    proof cases
      case ints
      with len rd have "length (content ?f1) < pos ?f1 + 44" by simp
      then have "read_app ?aid ?f1 = Inl StructError"
        by (rule read_app_cut)
      then have "read_games f d = Some (Inl StructError)"
        using nz by (subst read_games.simps) (simp add: i)
      with ints show ?thesis by simp
    next
      case digest
      have rd': "pos ?f1 + 44 \<le> length (content ?f1)"
        and short: "length (content ?f1) < pos ?f1 + 64"
        using digest len by simp_all
      note cut = read_app_cut_digest [OF rd' s short, of ?aid]
      show ?thesis
      proof (cases "le_nat (py_slice tail 4 8) + 9 < length tail")
        case True
        with len have "pos ?f1 + le_nat (py_slice tail 4 8) + 5 < length (content ?f1)"
          by simp
        with cut have "read_app ?aid ?f1 = Inl ValueError"
          by blast
        then have "read_games f d = Some (Inl ValueError)"
          using nz by (subst read_games.simps) (simp add: i)
        with True digest show ?thesis by simp
      next
        case False
        with len rd have "length (content ?f1) \<le> pos ?f1 + le_nat (py_slice tail 4 8) + 5"
          by simp
        with cut obtain a where a: "read_app ?aid ?f1 = Inr (a, f\<lparr>pos := length ?c\<rparr>)"
          and bc: "binary_content a = []"
          by auto
        from bc fields_ok_Nil have "fields_ok (binary_content a)" by simp
        from extract_fields_ok [OF this] obtain a' where e: "extract_fields a = Some (Inr a')"
          by blast
        have "read_games f d = Some (Inl StructError)"
          using nz by (subst read_games.simps) (simp add: i a e eof)
        with False show ?thesis by simp
      qed
    next
      case payload
      with t2 have big: "length tail < 8 + le_nat (py_slice tail 4 8)" by simp
      have tr': "length (content ?f1) < pos ?f1 + 4 + le_nat (py_slice tail 4 8)"
        using big payload len by auto
      have rd': "pos ?f1 + 44 \<le> length (content ?f1)"
        using payload len by simp
      from read_app_truncated [OF rd' s tr', of ?aid]
      obtain a where a: "read_app ?aid ?f1 = Inr (a, f\<lparr>pos := length ?c\<rparr>)"
        and bc: "binary_content a = drop 68 tail"
        by (auto simp: tl [symmetric] add.commute)
      have step: "read_games f d =
          (case extract_fields a of None \<Rightarrow> None | Some (Inl e) \<Rightarrow> Some (Inl e)
           | Some (Inr a') \<Rightarrow> Some (Inl StructError))"
        using nz by (subst read_games.simps) (simp add: i a eof split: option.splits sum.splits)
      have safe: "read_games f d = None \<or> (\<exists>e. read_games f d = Some (Inl e))"
        by (simp add: step split: option.splits sum.splits)
      have ok: "read_games f d = Some (Inl StructError)" if "fields_ok (drop 68 tail)"
      proof -
        from that bc have "fields_ok (binary_content a)" by simp
        from extract_fields_ok [OF this] show ?thesis
          by (auto simp: step)
      qed
      from safe ok payload show ?thesis by simp
    qed
  qed
  from both show "read_games f d = None \<or> (\<exists>e. read_games f d = Some (Inl e))"
    by blast
  from both show "fields_ok (drop 68 tail) \<Longrightarrow> read_games f d = Some (Inl ?err)"
    by blast
qed

text \<open>
  Claim C5, as amended. Take a buffer made of a readable header, well-formed records
  and then a record cut off by the end of the buffer (its appid, its declared size,
  one of its fixed fields or its payload runs past the end). \<^verbatim>\<open>read_appinfo\<close> returns no
  store for it, not even one of the earlier records. When the marker values in the
  payload bytes that are present are zero-terminated and decodable, it raises an
  exception, and which one is fixed by where the buffer ends: \<^verbatim>\<open>ValueError\<close> when the
  integer fixed fields are present, the second digest is cut and the buffer ends more
  than one byte after the declared end of the record (that is, the cut record has
  from 48 to 67 bytes, more than declared size plus 9), since the payload is then read
  with a length below \<open>-1\<close>; \<^verbatim>\<open>struct.error\<close> in every other case.
\<close>

theorem truncated_buffer_fails:
  assumes recs: "\<forall>r \<in> set recs. raw_record r \<and> fields_ok (binary_content r)"
    and u: "u < 2 ^ 32" and sto: "sto < 2 ^ 64"
    and tab: "16 + sto + 4 \<le> length buf" and off: "16 + sto \<le> 2 ^ 63 - 1"
    and buf: "buf = header_bytes u sto @ concat (map encode_app recs) @ tail"
    and tr: "truncated tail"
  shows "(\<forall>st. read_appinfo lim buf \<noteq> Some (Inr st))
     \<and> (fields_ok (drop 68 tail) \<longrightarrow>
          read_appinfo lim buf =
            Some (Inl (if 48 \<le> length tail \<and> length tail < 68
                          \<and> le_nat (py_slice tail 4 8) + 9 < length tail
                       then ValueError else StructError)))"
proof -
  let ?f = "\<lparr>content = buf, pos = 16\<rparr>"
  let ?n = "length (concat (map encode_app recs))"
  let ?g = "?f\<lparr>pos := pos ?f + ?n\<rparr>"
  note h = read_header_layout [OF u sto tab off buf]
  have lay: "drop (pos ?f) (content ?f) = concat (map encode_app recs) @ tail"
    using h(2) by simp
  have "drop ?n (drop 16 buf) = tail"
    by (simp add: h(2))
  then have lay': "drop (pos ?g) (content ?g) = tail"
    by (simp add: add.commute)
  have run: "read_appinfo lim buf = read_games ?g (store_of recs [])"
    by (simp only: read_appinfo_def h(1) sum.case prod.case read_games_records [OF recs lay])
  from read_games_truncated [OF lay' tr, of "store_of recs []"]
  show ?thesis
    unfolding run by auto
qed

theorem truncated_buffer_fails_witness:
  "raw_record tf2_record \<and> fields_ok (binary_content tf2_record)
   \<and> truncated ([0xB9, 1, 0, 0] @ [200, 0, 0, 0] @ replicate 60 0 @ [1, 2, 3])
   \<and> fields_ok (drop 68 ([0xB9, 1, 0, 0] @ [200, 0, 0, 0] @ replicate 60 0 @ [1, 2, 3]))
   \<and> read_appinfo example_max_offset (header_bytes 1 0 @ concat (map encode_app [tf2_record])
                     @ [0xB9, 1, 0, 0] @ [200, 0, 0, 0] @ replicate 60 0 @ [1, 2, 3])
       = Some (Inl StructError)
   \<and> truncated ([7, 0, 0, 0] @ [10, 0, 0, 0] @ replicate 52 0)
   \<and> fields_ok (drop 68 ([7, 0, 0, 0] @ [10, 0, 0, 0] @ replicate 52 0))
   \<and> read_appinfo example_max_offset (header_bytes 1 0 @ concat (map encode_app [tf2_record])
                     @ [7, 0, 0, 0] @ [10, 0, 0, 0] @ replicate 52 0)
       = Some (Inl ValueError)"
proof -
  let ?tail = "[0xB9, 1, 0, 0] @ [200, 0, 0, 0] @ replicate 60 0 @ [1, 2, 3] :: byte list"
  let ?buf = "header_bytes 1 0 @ concat (map encode_app [tf2_record]) @ ?tail"
  let ?tail' = "[7, 0, 0, 0] @ [10, 0, 0, 0] @ replicate 52 0 :: byte list"
  let ?buf' = "header_bytes 1 0 @ concat (map encode_app [tf2_record]) @ ?tail'"
  have r: "\<forall>r \<in> set [tf2_record]. raw_record r \<and> fields_ok (binary_content r)"
    by (simp add: tf2_record_raw tf2_record_fields_ok)
  have l: "16 + 0 + 4 \<le> length ?buf" and l': "16 + 0 + 4 \<le> length ?buf'"
    by simp_all
  have t: "truncated ?tail" and t': "truncated ?tail'"
    by (simp_all add: truncated_def py_slice_def)
  have k: "fields_ok (drop 68 ?tail)" and k': "fields_ok (drop 68 ?tail')"
    by (simp_all add: fields_ok_def bytes_in_def name_marker_def type_marker_def
        icon_marker_def)
  from truncated_buffer_fails [OF r _ _ l _ refl t, of example_max_offset] k
  have a: "read_appinfo example_max_offset ?buf = Some (Inl StructError)"
    by (simp add: py_slice_def)
  from truncated_buffer_fails [OF r _ _ l' _ refl t', of example_max_offset] k'
  have b: "read_appinfo example_max_offset ?buf' = Some (Inl ValueError)"
    by (simp add: py_slice_def)
  from r t k a t' k' b show ?thesis
    by simp
qed

text \<open>Claim C5 as stated fails on the error raised: in this cut buffer the payload bytes
  that are present hold a name that is not UTF-8, and the decode raises
  \<^verbatim>\<open>UnicodeDecodeError\<close> from the field extraction before any read reports the
  truncation.\<close>

theorem truncated_buffer_fails_counterexample:
  "truncated (drop 16 cut_bad_name_buf)
   \<and> read_appinfo example_max_offset cut_bad_name_buf = Some (Inl UnicodeDecodeError)"
proof -
  let ?f = "\<lparr>content = cut_bad_name_buf, pos = 16\<rparr>"
  let ?f20 = "\<lparr>content = cut_bad_name_buf, pos = 20\<rparr>"
  let ?f91 = "\<lparr>content = cut_bad_name_buf, pos = 91\<rparr>"
  let ?bc = "name_marker @ [0xFF, 0]"
  have t: "truncated (drop 16 cut_bad_name_buf)"
    by (simp add: truncated_def cut_bad_name_buf_def magic_bytes_def py_slice_def
        name_marker_def)
  have h: "read_header example_max_offset \<lparr>content = cut_bad_name_buf, pos = 0\<rparr>
      = Inr (\<lparr>universe = 1, string_table_offset = 0, string_count = 440\<rparr>, ?f)"
    by (simp add: read_header_eq cut_bad_name_buf_def magic_bytes_def py_slice_def
        name_marker_def)
  have a: "read_int32 ?f = Inr (440, ?f20)"
    by (simp add: read_int32_eq cut_bad_name_buf_def magic_bytes_def py_slice_def)
  have r: "read_app 440 ?f20 = Inr (blank_app 440 ?bc, ?f91)"
    by (simp add: read_app_def read_int32_eq read_int64_eq f_read_def f_read_int_def
        f_tell_def Let_def py_slice_def blank_app_def cut_bad_name_buf_def magic_bytes_def
        name_marker_def)
  have e: "extract_fields (blank_app 440 ?bc) = Some (Inl UnicodeDecodeError)"
    by (simp add: extract_fields_def extract_name_eq bytes_in_def zero_terminated_def
        marker_value_def bytes_decode_def blank_app_def name_marker_def)
  have "read_games ?f [] = Some (Inl UnicodeDecodeError)"
    by (subst read_games.simps) (simp add: a r e)
  with t show ?thesis
    by (simp add: read_appinfo_def h)
qed

end
